theory Spec2Isabelle
  imports Complex_Main
begin

section \<open>Python values, exceptions and the object store\<close>

text \<open>
  The module \<^verbatim>\<open>annotations_line2d.py\<close> is an adapter over a plotting toolkit. Its own
  logic is modelled function by function; the toolkit's objects (lines, axes, figures,
  canvases, annotation artists) appear as records in a store, holding exactly the
  attributes the module reads or writes. Every Python exception the module's own
  statements can raise is a value \<open>Inl (e, w)\<close> of the result type, where \<open>w\<close> is the state
  at the moment of the raise: an exception undoes nothing of what ran before it.
\<close>

datatype error =
    RuntimeError | AttributeError | IndexError | TypeError | UnboundLocalError
  | ValueError \<comment> \<open>the toolkit's \<^verbatim>\<open>Artist.remove()\<close> on an artist its axes no longer hold\<close>
  | NoSuchObject \<comment> \<open>a reference outside the store; no Python run produces one\<close>

datatype pyval = PyNone | PyInt int | PyStr string

type_synonym ref = nat
type_synonym point = "real \<times> real"

definition bind_err :: "'e + 'a \<Rightarrow> ('a \<Rightarrow> 'e + 'b) \<Rightarrow> 'e + 'b" where
  "bind_err m f = (case m of Inl e \<Rightarrow> Inl e | Inr x \<Rightarrow> f x)"

definition lookup :: "'a list \<Rightarrow> ref \<Rightarrow> error + 'a" where
  "lookup xs r = (if r < length xs then Inr (xs ! r) else Inl NoSuchObject)"

definition row :: "point list \<Rightarrow> int \<Rightarrow> error + point" where
  \<comment> \<open>\<^verbatim>\<open>xydata[i]\<close> on an array of rows: a negative index counts from the end\<close>
  "row xydata i =
     (if 0 \<le> i \<and> i < int (length xydata) then Inr (xydata ! nat i)
      else if - int (length xydata) \<le> i \<and> i < 0 then Inr (xydata ! nat (int (length xydata) + i))
      else Inl IndexError)"

datatype cls = Line2D | Axes | Figure | FigureCanvas | Annotation

datatype attr = Instance ref | CallbackIds "nat list"

datatype handler = OnPickEvent | OnFigureEnterEvent | DragOnPick ref | DragOnRelease ref

datatype picker_val = Tolerance real | PickerTrue | PickerCallable ref

datatype kwval = KStr string | KInt int | KReal real | KBool bool | KPair real real
  | KDict "(string \<times> kwval) list"

type_synonym kwargs = "(string \<times> kwval) list"

record obj =
  cls :: cls
  annotations_line2d :: "attr option"  \<comment> \<open>the side-table attribute; \<open>None\<close>: absent\<close>
  get_axes :: "ref option option"  \<comment> \<open>\<open>None\<close>: no such method; \<open>Some None\<close>: its result carries no attributes\<close>
  get_figure :: "ref option option"
  canvas :: "ref option"  \<comment> \<open>\<^verbatim>\<open>Figure.canvas\<close>\<close>
  axes :: "ref list"  \<comment> \<open>\<^verbatim>\<open>Figure.axes\<close>\<close>
  lines :: "ref list"  \<comment> \<open>\<^verbatim>\<open>Axes.lines\<close>\<close>
  picker :: "picker_val option"
  xydata :: "point list"  \<comment> \<open>\<^verbatim>\<open>Line2D.get_xydata()\<close>\<close>
  label :: string
  transData :: "point \<Rightarrow> point"  \<comment> \<open>\<^verbatim>\<open>Axes.transData.transform\<close>\<close>
  transData_inverted :: "point \<Rightarrow> point"
  a_text :: "string option"  \<comment> \<open>the annotation's text; \<open>None\<close> is Python's \<^verbatim>\<open>None\<close>\<close>
  xy :: point  \<comment> \<open>the annotation's anchor\<close>
  position :: point  \<comment> \<open>the annotation's text position, in offset points\<close>
  style :: kwargs
  in_figure :: bool  \<comment> \<open>false once \<^verbatim>\<open>Artist.remove()\<close> has run\<close>
  bbox_contains :: "point \<Rightarrow> bool"  \<comment> \<open>\<^verbatim>\<open>get_bbox_patch().contains\<close>, by mouse position\<close>
  inverted_matrix :: "real \<times> real"  \<comment> \<open>entries [0,0] and [1,1] of the inverted transform\<close>
  registry :: "(nat \<times> string \<times> handler) list"  \<comment> \<open>the canvas's connected callbacks\<close>
  next_cid :: nat
  draws :: nat  \<comment> \<open>how often \<^verbatim>\<open>canvas.draw()\<close> has run\<close>

text \<open>
  A formatter is a function \<^verbatim>\<open>fcn(line, index)\<close>; either argument may be \<^verbatim>\<open>None\<close>, and the
  line is passed as it is at the time of the call.
\<close>

type_synonym formatter_fun = "obj option \<Rightarrow> int option \<Rightarrow> error + string"

record mouse_event =
  button_e :: pyval
  key_e :: pyval
  pos_e :: point

record pick_event =
  mouseevent :: mouse_event
  artist :: ref
  ind :: "int list"

record draggable =
  ref_artist :: ref
  canvas_d :: ref
  got_artist :: bool
  cids :: "nat list"
  line :: "ref option"
  index :: "int option"
  formatter :: "formatter_fun option"
  ident :: int
  button :: "pyval option"  \<comment> \<open>\<open>None\<close>: the attribute is not set yet\<close>
  drag_start_text_points :: "point option"
  drag_trans_mat :: "(real \<times> real) option"
  xydata_d :: "point list option"
  drag_start_pixels :: "point option"
  drag_trans_pix2dat :: "(point \<Rightarrow> point) option"

record picker_inst =
  tolerance :: real
  use_blit :: bool
  button_p :: pyval
  key_p :: pyval
  formatter_p :: formatter_fun
  annotation_kwargs :: kwargs

record world =
  objs :: "obj list"
  pickers :: "picker_inst list"  \<comment> \<open>the \<^verbatim>\<open>AnnotationPicker\<close> instances, in creation order\<close>
  draggables :: "draggable list"  \<comment> \<open>the \<^verbatim>\<open>DraggableAnnotationLine2D\<close> instances, in creation order\<close>
  drag_lock :: bool  \<comment> \<open>the class-level \<^verbatim>\<open>_drag_lock\<close>: true while locked\<close>
  counter :: int  \<comment> \<open>the class-level \<^verbatim>\<open>_counter\<close>\<close>
  stdout :: "string list"
  last_event :: "pick_event option"  \<comment> \<open>the module's global \<^verbatim>\<open>_event\<close>\<close>
  float_add :: "real \<Rightarrow> real \<Rightarrow> real"
    \<comment> \<open>the interpreter's \<^verbatim>\<open>+\<close> on floats, as a function on the reals the floats denote\<close>
  float_mul :: "real \<Rightarrow> real \<Rightarrow> real"  \<comment> \<open>likewise \<^verbatim>\<open>*\<close>\<close>

type_synonym 'a result = "error \<times> world + 'a"

definition raise_in :: "world \<Rightarrow> error + 'a \<Rightarrow> 'a result" where
  \<comment> \<open>an exception of a state-free computation, raised in the state \<open>w\<close>\<close>
  "raise_in w m = (case m of Inl e \<Rightarrow> Inl (e, w) | Inr x \<Rightarrow> Inr x)"

definition blank :: "cls \<Rightarrow> obj" where
  "blank c =
     \<lparr>cls = c, annotations_line2d = None,
      get_axes = (if c = FigureCanvas then None else Some None),
      get_figure = (if c = FigureCanvas then None else Some None),
      canvas = None, axes = [], lines = [], picker = None, xydata = [], label = [],
      transData = (\<lambda>p. p), transData_inverted = (\<lambda>p. p), a_text = None, xy = (0, 0),
      position = (0, 0), style = [], in_figure = True, bbox_contains = (\<lambda>p. False),
      inverted_matrix = (1, 1), registry = [], next_cid = 0, draws = 0\<rparr>"

definition set_obj :: "ref \<Rightarrow> obj \<Rightarrow> world \<Rightarrow> world" where
  "set_obj r ob w = w\<lparr>objs := (objs w)[r := ob]\<rparr>"

definition set_draggable :: "ref \<Rightarrow> draggable \<Rightarrow> world \<Rightarrow> world" where
  "set_draggable d dr w = w\<lparr>draggables := (draggables w)[d := dr]\<rparr>"

subsection \<open>The lock\<close>

definition acquire :: "bool \<Rightarrow> bool \<times> bool" where
  \<comment> \<open>\<^verbatim>\<open>Lock.acquire(False)\<close>: whether it succeeded, and the lock afterwards\<close>
  "acquire locked = (if locked then (False, True) else (True, True))"

definition release :: "bool \<Rightarrow> error + bool" where
  \<comment> \<open>\<^verbatim>\<open>Lock.release()\<close> raises on an unlocked lock\<close>
  "release locked = (if locked then Inr False else Inl RuntimeError)"

subsection \<open>Toolkit operations used by the module\<close>

text \<open>
  These are the toolkit's methods, reduced to their effect on the attributes above. The
  base class \<^verbatim>\<open>DraggableBase\<close> belongs to the toolkit as well: its constructor connects the
  instance's \<^verbatim>\<open>on_pick\<close> and \<^verbatim>\<open>on_release\<close> to the canvas, its \<^verbatim>\<open>on_pick\<close> sets
  \<^verbatim>\<open>got_artist\<close> and calls the hook \<^verbatim>\<open>save_offset\<close>, and its \<^verbatim>\<open>on_release\<close> calls the hook
  \<^verbatim>\<open>finalize_offset\<close> and clears \<^verbatim>\<open>got_artist\<close> when the instance had been picked.
\<close>

definition set_text :: "ref \<Rightarrow> string \<Rightarrow> world \<Rightarrow> world result" where
  "set_text a s w =
     bind_err (raise_in w (lookup (objs w) a)) (\<lambda>ob. Inr (set_obj a (ob\<lparr>a_text := Some s\<rparr>) w))"

definition canvas_draw :: "ref \<Rightarrow> world \<Rightarrow> world result" where
  "canvas_draw c w =
     bind_err (raise_in w (lookup (objs w) c)) (\<lambda>ob. Inr (set_obj c (ob\<lparr>draws := Suc (draws ob)\<rparr>) w))"

definition mpl_connect :: "ref \<Rightarrow> string \<Rightarrow> handler \<Rightarrow> world \<Rightarrow> (nat \<times> world) result" where
  "mpl_connect c signal h w =
     bind_err (raise_in w (lookup (objs w) c)) (\<lambda>ob.
       if cls ob \<noteq> FigureCanvas then Inl (AttributeError, w)
       else Inr (next_cid ob,
         set_obj c (ob\<lparr>registry := registry ob @ [(next_cid ob, signal, h)],
                       next_cid := Suc (next_cid ob)\<rparr>) w))"

definition mpl_disconnect :: "ref \<Rightarrow> nat \<Rightarrow> world \<Rightarrow> world result" where
  "mpl_disconnect c cid w =
     bind_err (raise_in w (lookup (objs w) c)) (\<lambda>ob.
       if cls ob \<noteq> FigureCanvas then Inl (AttributeError, w)
       else Inr (set_obj c (ob\<lparr>registry := filter (\<lambda>e. fst e \<noteq> cid) (registry ob)\<rparr>) w))"

fun disconnect_all :: "ref \<Rightarrow> nat list \<Rightarrow> world \<Rightarrow> world result" where
  "disconnect_all c [] w = Inr w"
| "disconnect_all c (cid # rest) w = bind_err (mpl_disconnect c cid w) (disconnect_all c rest)"

definition call_formatter ::
  "formatter_fun \<Rightarrow> ref option \<Rightarrow> int option \<Rightarrow> world \<Rightarrow> error + string" where
  \<comment> \<open>\<^verbatim>\<open>formatter(line, index)\<close>: the formatter is called whatever the two arguments are\<close>
  "call_formatter f l i w =
     (case l of None \<Rightarrow> f None i
      | Some lr \<Rightarrow> bind_err (lookup (objs w) lr) (\<lambda>lo. f (Some lo) i))"

definition fresh_drag :: "ref \<Rightarrow> ref \<Rightarrow> nat list \<Rightarrow> draggable" where
  \<comment> \<open>an instance as the base class's constructor leaves it\<close>
  "fresh_drag a c ids =
     \<lparr>ref_artist = a, canvas_d = c, got_artist = False, cids = ids, line = None,
      index = None, formatter = None, ident = 0, button = None,
      drag_start_text_points = None, drag_trans_mat = None, xydata_d = None,
      drag_start_pixels = None, drag_trans_pix2dat = None\<rparr>"

definition DraggableBase_init :: "ref \<Rightarrow> world \<Rightarrow> (ref \<times> world) result" where
  "DraggableBase_init a w =
     bind_err (raise_in w (lookup (objs w) a)) (\<lambda>ao.
       case get_figure ao of None \<Rightarrow> Inl (AttributeError, w)
       | Some None \<Rightarrow> Inl (AttributeError, w)
       | Some (Some f) \<Rightarrow>
           bind_err (raise_in w (lookup (objs w) f)) (\<lambda>fo.
             case canvas fo of None \<Rightarrow> Inl (AttributeError, w)
             | Some c \<Rightarrow>
                 let d = length (draggables w) in
                 bind_err (mpl_connect c ''pick_event'' (DragOnPick d) w) (\<lambda>(c2, w1).
                 bind_err (mpl_connect c ''button_release_event'' (DragOnRelease d) w1) (\<lambda>(c3, w2).
                 bind_err (raise_in w2 (lookup (objs w2) a)) (\<lambda>ao2.
                   Inr (d, (set_obj a (ao2\<lparr>picker := Some (PickerCallable d)\<rparr>) w2)
                     \<lparr>draggables := draggables w2 @ [fresh_drag a c [c2, c3]]\<rparr>))))))"

subsection \<open>Class \<^verbatim>\<open>DraggableAnnotationLine2D\<close>\<close>

definition DraggableAnnotationLine2D_init ::
  "ref \<Rightarrow> ref option \<Rightarrow> int option \<Rightarrow> formatter_fun option \<Rightarrow> bool \<Rightarrow> world
     \<Rightarrow> (ref \<times> world) result" where
  "DraggableAnnotationLine2D_init a l i f blit w =
     bind_err (DraggableBase_init a w) (\<lambda>(d, w1).
     bind_err (raise_in w1 (lookup (draggables w1) d)) (\<lambda>dr.
       let n = (counter w1 + 1) mod 2 ^ 31;
           w2 = (set_draggable d (dr\<lparr>line := l, index := i, formatter := f, ident := n\<rparr>) w1)
                  \<lparr>counter := n\<rparr>
       in bind_err
            (case f of None \<Rightarrow> Inr w2
             | Some g \<Rightarrow> bind_err (raise_in w2 (call_formatter g l i w2)) (\<lambda>s. set_text a s w2))
            (\<lambda>w3. bind_err (canvas_draw (canvas_d dr) w3) (\<lambda>w4. Inr (d, w4)))))"

definition artist_picker ::
  "ref \<Rightarrow> ref \<Rightarrow> mouse_event \<Rightarrow> world \<Rightarrow> ((bool \<times> unit option) \<times> world) result" where
  "artist_picker d a event w =
     bind_err (raise_in w (lookup (draggables w) d)) (\<lambda>dr.
       if button_e event \<in> {PyInt 1, PyInt 3} \<or>
          (button_e event = PyInt 2 \<and> line dr \<noteq> None \<and> index dr \<noteq> None)
       then
         bind_err (raise_in w (lookup (objs w) (ref_artist dr))) (\<lambda>ao.
           let drag = (bbox_contains ao (pos_e event), Some ()) in
           if fst drag then
             (case acquire (drag_lock w) of
                (True, l) \<Rightarrow>
                  Inr (drag, set_draggable d (dr\<lparr>button := Some (button_e event)\<rparr>)
                               (w\<lparr>drag_lock := l\<rparr>))
              | (False, l) \<Rightarrow> Inr ((False, None), w\<lparr>drag_lock := l\<rparr>))
           else Inr ((False, None), w))
       else Inr ((False, None), w))"

definition save_offset :: "ref \<Rightarrow> world \<Rightarrow> world result" where
  "save_offset d w =
     bind_err (raise_in w (lookup (draggables w) d)) (\<lambda>dr.
       case button dr of None \<Rightarrow> Inl (AttributeError, w)
       | Some b \<Rightarrow>
           if b = PyInt 1 then
             bind_err (raise_in w (lookup (objs w) (ref_artist dr))) (\<lambda>ao.
               Inr (set_draggable d
                      (dr\<lparr>drag_start_text_points := Some (position ao),
                          drag_trans_mat := Some (inverted_matrix ao)\<rparr>) w))
           else if b = PyInt 2 then
             (case line dr of None \<Rightarrow> Inl (AttributeError, w)
              | Some lr \<Rightarrow>
                  bind_err (raise_in w (lookup (objs w) lr)) (\<lambda>lo.
                  bind_err (raise_in w (lookup (objs w) (ref_artist dr))) (\<lambda>ao.
                    case get_axes ao of None \<Rightarrow> Inl (AttributeError, w)
                    | Some None \<Rightarrow> Inl (AttributeError, w)
                    | Some (Some ax) \<Rightarrow>
                        bind_err (raise_in w (lookup (objs w) ax)) (\<lambda>axo.
                          Inr (set_draggable d
                                 (dr\<lparr>xydata_d := Some (xydata lo),
                                     drag_start_pixels := Some (transData axo (xy ao)),
                                     drag_trans_pix2dat := Some (transData_inverted axo)\<rparr>) w)))))
           else Inr w)"

function move_left :: "point list \<Rightarrow> real \<Rightarrow> int \<Rightarrow> error + int" where
  "move_left xyd new_x i =
     (if i > 0 then
        bind_err (row xyd (i - 1)) (\<lambda>p.
          if fst p > new_x then move_left xyd new_x (i - 1) else Inr i)
      else Inr i)"
  by pat_completeness auto
termination
  by (relation "measure (\<lambda>(xyd, new_x, i). nat i)") auto

function move_right :: "point list \<Rightarrow> real \<Rightarrow> int \<Rightarrow> error + int" where
  "move_right xyd new_x i =
     (if i < int (length xyd) - 1 then
        bind_err (row xyd (i + 1)) (\<lambda>p.
          if fst p < new_x then move_right xyd new_x (i + 1) else Inr i)
      else Inr i)"
  by pat_completeness auto
termination
  by (relation "measure (\<lambda>(xyd, new_x, i). nat (int (length xyd) - 1 - i))") auto

definition slide_index :: "point list \<Rightarrow> real \<Rightarrow> int \<Rightarrow> error + int" where
  \<comment> \<open>the two \<^verbatim>\<open>while\<close> loops of \<^verbatim>\<open>update_offset\<close>, one after the other\<close>
  "slide_index xyd new_x i = bind_err (move_left xyd new_x i) (move_right xyd new_x)"

definition update_offset :: "ref \<Rightarrow> real \<Rightarrow> real \<Rightarrow> world \<Rightarrow> world result" where
  "update_offset d dx dy w =
     bind_err (raise_in w (lookup (draggables w) d)) (\<lambda>dr.
       case button dr of None \<Rightarrow> Inl (AttributeError, w)
       | Some b \<Rightarrow>
           if b = PyInt 1 then
             (case (drag_start_text_points dr, drag_trans_mat dr) of
                (Some (sx, sy), Some (m00, m11)) \<Rightarrow>
                  bind_err (raise_in w (lookup (objs w) (ref_artist dr))) (\<lambda>ao.
                    Inr (set_obj (ref_artist dr)
                           (ao\<lparr>position := (float_add w sx (float_mul w dx m00),
                                          float_add w sy (float_mul w dy m11))\<rparr>) w))
              | _ \<Rightarrow> Inl (AttributeError, w))
           else if b = PyInt 2 then
             (case (drag_trans_pix2dat dr, drag_start_pixels dr, xydata_d dr) of
                (Some pix2dat, Some (px, py), Some xyd) \<Rightarrow>
                  let new_data_xy = pix2dat (float_add w px dx, float_add w py dy) in
                  (case index dr of None \<Rightarrow> Inl (TypeError, w)
                   | Some i0 \<Rightarrow>
                       bind_err (raise_in w (slide_index xyd (fst new_data_xy) i0)) (\<lambda>i.
                         if i \<noteq> i0 then
                           bind_err (raise_in w (row xyd i)) (\<lambda>p.
                           bind_err (raise_in w (lookup (objs w) (ref_artist dr))) (\<lambda>ao.
                             let w1 = set_draggable d (dr\<lparr>index := Some i\<rparr>)
                                        (set_obj (ref_artist dr) (ao\<lparr>xy := p\<rparr>) w)
                             in case formatter dr of None \<Rightarrow> Inr w1
                                | Some f \<Rightarrow>
                                    bind_err (raise_in w1 (call_formatter f (line dr) (Some i) w1)) (\<lambda>s.
                                      set_text (ref_artist dr) s w1)))
                         else Inr w))
              | _ \<Rightarrow> Inl (AttributeError, w))
           else Inr w)"

function str_nat :: "nat \<Rightarrow> string" where
  "str_nat n =
     (if n < 10 then [char_of (48 + n)] else str_nat (n div 10) @ [char_of (48 + n mod 10)])"
  by pat_completeness auto
termination
  by (relation "measure (\<lambda>n. n)") auto

definition str_int :: "int \<Rightarrow> string" where
  "str_int i = (if i < 0 then CHR ''-'' # str_nat (nat (- i)) else str_nat (nat i))"

definition print_annotation :: "ref \<Rightarrow> world \<Rightarrow> world result" where
  "print_annotation d w =
     bind_err (raise_in w (lookup (draggables w) d)) (\<lambda>dr.
       case line dr of None \<Rightarrow> Inl (AttributeError, w)
       | Some lr \<Rightarrow>
           bind_err (raise_in w (lookup (objs w) lr)) (\<lambda>lo.
           bind_err (raise_in w (lookup (objs w) (ref_artist dr))) (\<lambda>ao.
             Inr (w\<lparr>stdout := stdout w @
               [''Annotation: '' @ label lo @ '', ind='' @
                (case index dr of None \<Rightarrow> ''None'' | Some i \<Rightarrow> str_int i) @ [CHR 0x0A] @
                (case a_text ao of None \<Rightarrow> ''None'' | Some t \<Rightarrow> t)]\<rparr>))))"

definition artist_remove :: "ref \<Rightarrow> world \<Rightarrow> world result" where
  \<comment> \<open>the toolkit's \<^verbatim>\<open>Artist.remove()\<close>: it takes the artist out of its axes, and raises when
      the axes no longer hold it\<close>
  "artist_remove a w =
     bind_err (raise_in w (lookup (objs w) a)) (\<lambda>ao.
       if in_figure ao then Inr (set_obj a (ao\<lparr>in_figure := False\<rparr>) w)
       else Inl (ValueError, w))"

definition remove_self :: "ref \<Rightarrow> world \<Rightarrow> world result" where
  \<comment> \<open>the method \<^verbatim>\<open>remove\<close>\<close>
  "remove_self d w =
     bind_err (raise_in w (lookup (draggables w) d)) (\<lambda>dr.
     bind_err (disconnect_all (canvas_d dr) (cids dr) w) (\<lambda>w1.
     bind_err (artist_remove (ref_artist dr) w1) (\<lambda>w2.
       canvas_draw (canvas_d dr) (set_draggable d (dr\<lparr>got_artist := False\<rparr>) w2))))"

definition finalize_offset :: "ref \<Rightarrow> world \<Rightarrow> world result" where
  "finalize_offset d w =
     bind_err (raise_in w (lookup (draggables w) d)) (\<lambda>dr.
       case button dr of None \<Rightarrow> Inl (AttributeError, w)
       | Some b \<Rightarrow>
           if b = PyInt 2 \<and> formatter dr \<noteq> None then print_annotation d w
           else if b = PyInt 3 then remove_self d w
           else Inr w)"

definition DraggableBase_on_pick :: "ref \<Rightarrow> ref \<Rightarrow> world \<Rightarrow> world result" where
  \<comment> \<open>the toolkit's \<^verbatim>\<open>on_pick\<close>, for a pick event on the artist \<open>a\<close>\<close>
  "DraggableBase_on_pick d a w =
     bind_err (raise_in w (lookup (draggables w) d)) (\<lambda>dr.
       if a = ref_artist dr
       then save_offset d (set_draggable d (dr\<lparr>got_artist := True\<rparr>) w)
       else Inr w)"

definition DraggableBase_on_release :: "ref \<Rightarrow> mouse_event \<Rightarrow> world \<Rightarrow> world result" where
  \<comment> \<open>the toolkit's \<^verbatim>\<open>on_release\<close>\<close>
  "DraggableBase_on_release d event w =
     bind_err (raise_in w (lookup (draggables w) d)) (\<lambda>dr.
       if got_artist dr then
         bind_err (finalize_offset d w) (\<lambda>w1.
         bind_err (raise_in w1 (lookup (draggables w1) d)) (\<lambda>dr1.
           Inr (set_draggable d (dr1\<lparr>got_artist := False\<rparr>) w1)))
       else Inr w)"

definition on_release :: "ref \<Rightarrow> mouse_event \<Rightarrow> world \<Rightarrow> world result" where
  "on_release d event w =
     bind_err (DraggableBase_on_release d event w) (\<lambda>w1.
       case release (drag_lock w1) of
         Inr l \<Rightarrow> Inr (w1\<lparr>drag_lock := l\<rparr>)
       | Inl e \<Rightarrow> if e = RuntimeError then Inr w1 else Inl (e, w1))"

subsection \<open>Dispatch of a mouse press to one instance\<close>

definition pick :: "ref \<Rightarrow> mouse_event \<Rightarrow> world \<Rightarrow> world result" where
  \<comment> \<open>the toolkit's \<^verbatim>\<open>Artist.pick\<close> on the annotation of instance \<open>d\<close>: it calls the picker
      and, on a hit, delivers the pick event to the instance's \<^verbatim>\<open>on_pick\<close>\<close>
  "pick d event w =
     bind_err (raise_in w (lookup (draggables w) d)) (\<lambda>dr.
     bind_err (artist_picker d (ref_artist dr) event w) (\<lambda>(hit, w1).
       if fst hit then DraggableBase_on_pick d (ref_artist dr) w1 else Inr w1))"

fun release_each :: "ref list \<Rightarrow> mouse_event \<Rightarrow> world \<Rightarrow> world result" where
  "release_each [] event w = Inr w"
| "release_each (d # ds) event w = bind_err (on_release d event w) (release_each ds event)"

definition release_all :: "mouse_event \<Rightarrow> world \<Rightarrow> world result" where
  \<comment> \<open>a button release delivered to the \<^verbatim>\<open>on_release\<close> of every instance, in creation order\<close>
  "release_all event w = release_each [0..<length (draggables w)] event w"

datatype drag_event = Pick ref mouse_event | Release ref mouse_event | ReleaseAll mouse_event

fun step :: "drag_event \<Rightarrow> world \<Rightarrow> world result" where
  "step (Pick d event) w = pick d event w"
| "step (Release d event) w = on_release d event w"
| "step (ReleaseAll event) w = release_all event w"

fun run :: "drag_event list \<Rightarrow> world \<Rightarrow> world result" where
  "run [] w = Inr w"
| "run (e # es) w = bind_err (step e w) (run es)"

definition dragging :: "world \<Rightarrow> ref list" where
  \<comment> \<open>the instances that hold the drag: picked and not yet released\<close>
  "dragging w = filter (\<lambda>d. got_artist (draggables w ! d)) [0..<length (draggables w)]"

fun broadcast :: "drag_event \<Rightarrow> bool" where
  "broadcast (Release d event) = False"
| "broadcast e = True"

subsection \<open>Class \<^verbatim>\<open>AnnotationPicker\<close>\<close>

definition annotate_line_str :: "(real \<Rightarrow> string) \<Rightarrow> formatter_fun" where
  \<comment> \<open>\<^verbatim>\<open>_annotate_line_str\<close>; \<open>fmt9\<close> stands for Python's float format \<^verbatim>\<open>{:.9}\<close>. With the index
      \<^verbatim>\<open>None\<close> the array gains a leading axis of length one, and reading its element 1 raises\<close>
  "annotate_line_str fmt9 lin i =
     (case lin of None \<Rightarrow> Inl AttributeError
      | Some lo \<Rightarrow>
          (case i of None \<Rightarrow> Inl IndexError
           | Some ix \<Rightarrow>
               bind_err (row (xydata lo) ix) (\<lambda>p.
                 Inr (label lo @ ''['' @ str_int ix @ '']:'' @ [CHR 0x0A] @ ''x='' @ fmt9 (fst p) @
                      [CHR 0x0A] @ ''y:'' @ fmt9 (snd p)))))"

fun dict_update :: "kwargs \<Rightarrow> kwargs \<Rightarrow> kwargs" where
  "dict_update dict [] = dict"
| "dict_update dict ((k, v) # rest) =
     dict_update (if k \<in> fst ` set dict
                  then map (\<lambda>e. if fst e = k then (k, v) else e) dict
                  else dict @ [(k, v)]) rest"

definition default_kwargs :: kwargs where
  "default_kwargs =
     [(''xycoords'', KStr ''data''), (''textcoords'', KStr ''offset points''),
      (''fontsize'', KInt 11), (''picker'', KBool True), (''xytext'', KPair 20 20),
      (''bbox'', KDict [(''boxstyle'', KStr ''round,pad=0.5''), (''fc'', KStr ''yellow''),
                        (''alpha'', KReal (1 / 2))]),
      (''arrowprops'', KDict [(''shrink'', KReal (1 / 20)), (''headwidth'', KInt 5),
                              (''width'', KInt 1)])]"

datatype artists_arg = Single "ref option" | Iterable "ref option list"

fun make_iterable :: "artists_arg \<Rightarrow> ref option list" where
  "make_iterable (Iterable xs) = xs"
| "make_iterable (Single x) = [x]"

definition pickable :: "world \<Rightarrow> ref \<Rightarrow> bool" where
  \<comment> \<open>the toolkit's \<^verbatim>\<open>Artist.pickable()\<close>: a picker is set\<close>
  "pickable w r = (case lookup (objs w) r of Inl e \<Rightarrow> False | Inr ob \<Rightarrow> picker ob \<noteq> None)"

fun set_pickers :: "ref list \<Rightarrow> real \<Rightarrow> world \<Rightarrow> world result" where
  "set_pickers [] tol w = Inr w"
| "set_pickers (l # ls) tol w =
     bind_err (raise_in w (lookup (objs w) l)) (\<lambda>lo.
       set_pickers ls tol (set_obj l (lo\<lparr>picker := Some (Tolerance tol)\<rparr>) w))"

definition canvas_of_artist :: "ref option \<Rightarrow> world \<Rightarrow> error + ref option" where
  \<comment> \<open>the first statement of \<^verbatim>\<open>enable_callbacks\<close>: which object is taken as the canvas\<close>
  "canvas_of_artist a w =
     (case a of None \<Rightarrow> Inr None
      | Some r \<Rightarrow>
          bind_err (lookup (objs w) r) (\<lambda>ao.
            if cls ao = Figure then Inr (canvas ao)
            else case get_figure ao of
                None \<Rightarrow> Inr (Some r)
              | Some None \<Rightarrow> Inl AttributeError
              | Some (Some f) \<Rightarrow> bind_err (lookup (objs w) f) (\<lambda>fo. Inr (canvas fo))))"

definition enable_callbacks :: "ref option \<Rightarrow> world \<Rightarrow> world result" where
  "enable_callbacks a w =
     bind_err (raise_in w (canvas_of_artist a w)) (\<lambda>cv.
       case cv of None \<Rightarrow> Inl (AttributeError, w)
       | Some c \<Rightarrow>
           bind_err (raise_in w (lookup (objs w) c)) (\<lambda>co.
             if annotations_line2d co = None then
               bind_err (mpl_connect c ''pick_event'' OnPickEvent w) (\<lambda>(id1, w1).
               bind_err (mpl_connect c ''figure_enter_event'' OnFigureEnterEvent w1) (\<lambda>(id2, w2).
               bind_err (raise_in w2 (lookup (objs w2) c)) (\<lambda>co2.
                 Inr (set_obj c (co2\<lparr>annotations_line2d := Some (CallbackIds [id1, id2])\<rparr>) w2))))
             else Inr w))"

definition disable_callbacks :: "ref \<Rightarrow> world \<Rightarrow> world result" where
  "disable_callbacks c0 w =
     bind_err (raise_in w (lookup (objs w) c0)) (\<lambda>o0.
       case (if cls o0 = Figure then canvas o0 else Some c0) of
         None \<Rightarrow> Inl (AttributeError, w)
       | Some c \<Rightarrow>
           bind_err (raise_in w (lookup (objs w) c)) (\<lambda>co.
           bind_err
             (case annotations_line2d co of
                None \<Rightarrow> disconnect_all c [] w
              | Some (CallbackIds ids) \<Rightarrow> disconnect_all c ids w
              | Some (Instance p) \<Rightarrow> Inl (TypeError, w))
             (\<lambda>w1.
               bind_err (raise_in w1 (lookup (objs w1) c)) (\<lambda>co1.
                 case annotations_line2d co1 of
                   None \<Rightarrow> Inl (AttributeError, w1)
                 | Some v \<Rightarrow>
                     Inr ((set_obj c (co1\<lparr>annotations_line2d := None\<rparr>) w1)
                            \<lparr>stdout := stdout w1 @
                               [''AnnotationPicker callback removed from canvas.'']\<rparr>)))))"

definition lines_to_enable :: "world \<Rightarrow> ref \<Rightarrow> obj \<Rightarrow> ref list" where
  \<comment> \<open>the \<^verbatim>\<open>if/elif\<close> chain of \<^verbatim>\<open>apply\<close> that collects the lines without a picker\<close>
  "lines_to_enable w a ao =
     (if cls ao = Line2D \<and> \<not> pickable w a then [a]
      else if cls ao = Axes then filter (\<lambda>l. \<not> pickable w l) (lines ao)
      else if cls ao = Figure then
        concat (map (\<lambda>ax. case lookup (objs w) ax of Inl e \<Rightarrow> []
                           | Inr axo \<Rightarrow> filter (\<lambda>l. \<not> pickable w l) (lines axo)) (axes ao))
      else [])"

fun apply_loop :: "ref \<Rightarrow> real \<Rightarrow> ref option list \<Rightarrow> world \<Rightarrow> world result" where
  "apply_loop p tol [] w = Inr w"
| "apply_loop p tol (None # rest) w = apply_loop p tol rest w"
| "apply_loop p tol (Some a # rest) w =
     bind_err (raise_in w (lookup (objs w) a)) (\<lambda>ao.
       let w1 = set_obj a (ao\<lparr>annotations_line2d := Some (Instance p)\<rparr>) w in
       bind_err (set_pickers (lines_to_enable w1 a ao) tol w1) (apply_loop p tol rest))"

definition apply_artists :: "ref \<Rightarrow> artists_arg \<Rightarrow> world \<Rightarrow> world result" where
  \<comment> \<open>the method \<^verbatim>\<open>apply\<close>; after the loop the variable \<^verbatim>\<open>artist\<close> is its last element\<close>
  "apply_artists p artists w =
     bind_err (raise_in w (lookup (pickers w) p)) (\<lambda>pk.
     bind_err (apply_loop p (tolerance pk) (make_iterable artists) w) (\<lambda>w1.
       case make_iterable artists of
         [] \<Rightarrow> Inl (UnboundLocalError, w1)
       | x # xs \<Rightarrow> enable_callbacks (last (x # xs)) w1))"

definition AnnotationPicker_init ::
  "(real \<Rightarrow> string) \<Rightarrow> artists_arg option \<Rightarrow> real \<Rightarrow> formatter_fun option \<Rightarrow>
     pyval \<Rightarrow> pyval \<Rightarrow> bool \<Rightarrow> kwargs \<Rightarrow> world \<Rightarrow> (ref \<times> world) result" where
  "AnnotationPicker_init fmt9 artists tol fmtr b k blit kw w =
     (let p = length (pickers w);
          w1 = w\<lparr>pickers := pickers w @
                 [\<lparr>tolerance = tol, use_blit = blit, button_p = b, key_p = k,
                   formatter_p = (case fmtr of None \<Rightarrow> annotate_line_str fmt9 | Some f \<Rightarrow> f),
                   annotation_kwargs = dict_update default_kwargs kw\<rparr>]\<rparr>
      in case artists of
           None \<Rightarrow> Inr (p, w1)
         | Some arts \<Rightarrow> bind_err (apply_artists p arts w1) (\<lambda>w2. Inr (p, w2)))"

definition new_annotation :: "ref \<Rightarrow> obj \<Rightarrow> string option \<Rightarrow> point \<Rightarrow> kwargs \<Rightarrow> obj" where
  \<comment> \<open>the annotation artist the toolkit creates in the axes \<open>ax\<close>\<close>
  "new_annotation ax axo txt p kw =
     (blank Annotation)
       \<lparr>get_axes := Some (Some ax), get_figure := get_figure axo, a_text := txt, xy := p,
        position := (case map_of kw ''xytext'' of Some (KPair a b) \<Rightarrow> (a, b) | _ \<Rightarrow> p),
        picker := (case map_of kw ''picker'' of Some (KBool True) \<Rightarrow> Some PickerTrue
                   | _ \<Rightarrow> None),
        style := kw\<rparr>"

definition axes_annotate ::
  "ref \<Rightarrow> string option \<Rightarrow> point \<Rightarrow> kwargs \<Rightarrow> world \<Rightarrow> (ref \<times> world) result" where
  \<comment> \<open>the toolkit's \<^verbatim>\<open>Axes.annotate\<close>: a new annotation artist in these axes\<close>
  "axes_annotate ax txt p kw w =
     bind_err (raise_in w (lookup (objs w) ax)) (\<lambda>axo.
       if cls axo \<noteq> Axes then Inl (AttributeError, w)
       else Inr (length (objs w),
                 w\<lparr>objs := objs w @ [new_annotation ax axo txt p kw]\<rparr>))"

definition picker_annotate ::
  "ref \<Rightarrow> ref \<Rightarrow> int \<Rightarrow> string option \<Rightarrow> world \<Rightarrow> (ref \<times> world) result" where
  \<comment> \<open>the method \<^verbatim>\<open>AnnotationPicker.annotate\<close>\<close>
  "picker_annotate p lin i txt w =
     bind_err (raise_in w (lookup (pickers w) p)) (\<lambda>pk.
       let f = (case txt of None \<Rightarrow> Some (formatter_p pk) | Some s \<Rightarrow> None) in
       bind_err (raise_in w (lookup (objs w) lin)) (\<lambda>lo.
         case get_axes lo of
           None \<Rightarrow> Inl (AttributeError, w)
         | Some None \<Rightarrow> Inl (AttributeError, w)
         | Some (Some ax) \<Rightarrow>
             bind_err (raise_in w (row (xydata lo) i)) (\<lambda>pt.
             bind_err (axes_annotate ax txt pt (annotation_kwargs pk) w) (\<lambda>(a, w1).
               DraggableAnnotationLine2D_init a (Some lin) (Some i) f (use_blit pk) w1))))"

definition onpick :: "ref \<Rightarrow> pick_event \<Rightarrow> world \<Rightarrow> world result" where
  \<comment> \<open>the method \<^verbatim>\<open>_onpick\<close>\<close>
  "onpick p event w =
     bind_err (raise_in w (lookup (pickers w) p)) (\<lambda>pk.
     bind_err (raise_in w (lookup (objs w) (artist event))) (\<lambda>ao.
       if button_e (mouseevent event) = button_p pk \<and> key_e (mouseevent event) = key_p pk \<and>
          cls ao = Line2D
       then
         (case ind event of
            [] \<Rightarrow> Inl (IndexError, w)
          | x # xs \<Rightarrow>
              bind_err
                (picker_annotate p (artist event) (ind event ! (length (ind event) div 2)) None
                   (w\<lparr>last_event := Some event\<rparr>))
                (\<lambda>(d, w1). Inr w1))
       else Inr w))"

subsection \<open>Module functions\<close>

definition attr_of :: "world \<Rightarrow> ref option \<Rightarrow> error + attr option" where
  \<comment> \<open>\<^verbatim>\<open>getattr(x, attr_name)\<close> where \<^verbatim>\<open>hasattr\<close> holds; a result that is no artist has none\<close>
  "attr_of w x =
     (case x of None \<Rightarrow> Inr None
      | Some r \<Rightarrow> bind_err (lookup (objs w) r) (\<lambda>ob. Inr (annotations_line2d ob)))"

definition find_annotations_instance :: "world \<Rightarrow> ref \<Rightarrow> error + attr option" where
  "find_annotations_instance w a =
     bind_err (lookup (objs w) a) (\<lambda>ao.
       case annotations_line2d ao of
         Some v \<Rightarrow> Inr (Some v)
       | None \<Rightarrow>
           bind_err (case get_axes ao of None \<Rightarrow> Inr None | Some ax \<Rightarrow> attr_of w ax) (\<lambda>on_axes.
             case on_axes of
               Some v \<Rightarrow> Inr (Some v)
             | None \<Rightarrow>
                 bind_err (case get_figure ao of None \<Rightarrow> Inr None | Some f \<Rightarrow> attr_of w f)
                   (\<lambda>on_figure.
                     case on_figure of Some v \<Rightarrow> Inr (Some v) | None \<Rightarrow> Inr None)))"

definition on_pick_event :: "pick_event \<Rightarrow> world \<Rightarrow> world result" where
  "on_pick_event event w =
     bind_err (raise_in w (find_annotations_instance w (artist event))) (\<lambda>inst.
       case inst of
         None \<Rightarrow> Inr w
       | Some (Instance p) \<Rightarrow> onpick p event w
       | Some (CallbackIds ids) \<Rightarrow> Inl (AttributeError, w))"

definition annotate :: "(real \<Rightarrow> string) \<Rightarrow> ref \<Rightarrow> int \<Rightarrow> string option \<Rightarrow> world \<Rightarrow> world result" where
  \<comment> \<open>the module-level \<^verbatim>\<open>annotate\<close>; it returns nothing\<close>
  "annotate fmt9 lin i txt w =
     bind_err (raise_in w (find_annotations_instance w lin)) (\<lambda>inst.
       case inst of
         None \<Rightarrow>
           bind_err (AnnotationPicker_init fmt9 (Some (Single (Some lin))) 5 None (PyInt 1)
                       (PyStr ''control'') True [] w) (\<lambda>(p, w1).
           bind_err (raise_in w1 (lookup (objs w1) lin)) (\<lambda>lo.
           bind_err (picker_annotate p lin i txt
                       (set_obj lin (lo\<lparr>annotations_line2d := Some (Instance p)\<rparr>) w1))
             (\<lambda>(d, w2). Inr w2)))
       | Some (Instance p) \<Rightarrow> bind_err (picker_annotate p lin i txt w) (\<lambda>(d, w1). Inr w1)
       | Some (CallbackIds ids) \<Rightarrow> Inl (AttributeError, w))"

subsection \<open>The ownership chain, as the specification words it\<close>

definition owner_attr :: "world \<Rightarrow> ref option option \<Rightarrow> attr option" where
  \<comment> \<open>the attribute on an owner reached by \<^verbatim>\<open>get_axes\<close> or \<^verbatim>\<open>get_figure\<close>, if it is present\<close>
  "owner_attr w g =
     (case g of
        Some (Some r) \<Rightarrow> (case lookup (objs w) r of Inr ob \<Rightarrow> annotations_line2d ob | Inl e \<Rightarrow> None)
      | _ \<Rightarrow> None)"

definition nearest_instance :: "world \<Rightarrow> obj \<Rightarrow> attr option" where
  \<comment> \<open>the claim's words: the artist's own attribute if present, otherwise the one on its
      axes if present, otherwise the one on its figure if present, otherwise nothing\<close>
  "nearest_instance w ao =
     (case annotations_line2d ao of
        Some v \<Rightarrow> Some v
      | None \<Rightarrow>
          (case owner_attr w (get_axes ao) of
             Some v \<Rightarrow> Some v
           | None \<Rightarrow> owner_attr w (get_figure ao)))"

subsection \<open>The neighbour condition, as the specification words it\<close>



section \<open>A small scene for evaluation\<close>

text \<open>
  One figure (0) with its canvas (1), one axes (2) holding one line (3) of four points,
  and one annotation (4) with its draggable instance (0).
\<close>

definition scene_xydata :: "point list" where
  "scene_xydata = [(0, 0), (1, 1), (2, 4), (3, 9)]"

definition scene_objs :: "obj list" where
  "scene_objs =
     [(blank Figure)\<lparr>canvas := Some 1, axes := [2]\<rparr>,
      (blank FigureCanvas)
        \<lparr>registry := [(0, ''pick_event'', DragOnPick 0),
                      (1, ''button_release_event'', DragOnRelease 0)],
         next_cid := 2\<rparr>,
      (blank Axes)\<lparr>get_figure := Some (Some 0), lines := [3]\<rparr>,
      (blank Line2D)
        \<lparr>get_axes := Some (Some 2), get_figure := Some (Some 0), xydata := scene_xydata,
         label := ''sq''\<rparr>,
      (blank Annotation)
        \<lparr>get_axes := Some (Some 2), get_figure := Some (Some 0), xy := (1, 1),
         position := (20, 20), bbox_contains := (\<lambda>p. True)\<rparr>]"

definition scene_drag :: "pyval \<Rightarrow> bool \<Rightarrow> draggable" where
  "scene_drag b g =
     \<lparr>ref_artist = 4, canvas_d = 1, got_artist = g, cids = [0, 1], line = Some 3,
      index = Some 1, formatter = None, ident = 1, button = Some b,
      drag_start_text_points = Some (20, 20), drag_trans_mat = Some (1, 1),
      xydata_d = Some scene_xydata, drag_start_pixels = Some (1, 1),
      drag_trans_pix2dat = Some (\<lambda>p. p)\<rparr>"

definition scene :: "pyval \<Rightarrow> bool \<Rightarrow> bool \<Rightarrow> world" where
  "scene b g locked =
     \<lparr>objs = scene_objs, pickers = [], draggables = [scene_drag b g], drag_lock = locked,
      counter = 1, stdout = [], last_event = None, float_add = (+), float_mul = (*)\<rparr>"

definition click :: "int \<Rightarrow> mouse_event" where
  "click b = \<lparr>button_e = PyInt b, key_e = PyNone, pos_e = (0, 0)\<rparr>"

definition scene_picker :: picker_inst where
  "scene_picker =
     \<lparr>tolerance = 5, use_blit = True, button_p = PyInt 1, key_p = PyStr ''control'',
      formatter_p = (\<lambda>lo i. Inr (case lo of None \<Rightarrow> ''None'' | Some ob \<Rightarrow> label ob)),
      annotation_kwargs = default_kwargs\<rparr>"

definition controlled_scene :: world where
  \<comment> \<open>the scene with a controller attached to the axes\<close>
  "controlled_scene =
     (set_obj 2 ((scene_objs ! 2)\<lparr>annotations_line2d := Some (Instance 0)\<rparr>)
        (scene (PyInt 1) False False))\<lparr>pickers := [scene_picker]\<rparr>"

definition idle_drag :: "ref \<Rightarrow> draggable" where
  \<comment> \<open>an instance for the annotation \<open>a\<close>, not picked yet; each figure's objects are stored
      in the order figure, canvas, axes, line, annotation\<close>
  "idle_drag a =
     \<lparr>ref_artist = a, canvas_d = a - 3, got_artist = False, cids = [0, 1],
      line = Some (a - 1), index = Some 1, formatter = None, ident = 0, button = None,
      drag_start_text_points = None, drag_trans_mat = None, xydata_d = None,
      drag_start_pixels = None, drag_trans_pix2dat = None\<rparr>"

definition picked_drag :: "ref \<Rightarrow> draggable" where
  \<comment> \<open>that instance after a left-click pick inside its box\<close>
  "picked_drag a =
     (idle_drag a)\<lparr>button := Some (PyInt 1), got_artist := True,
                   drag_start_text_points := Some (20, 20), drag_trans_mat := Some (1, 1)\<rparr>"

definition second_figure :: "obj list" where
  \<comment> \<open>a second figure (5) with its own canvas (6), axes (7), line (8) and annotation (9)\<close>
  "second_figure =
     [(blank Figure)\<lparr>canvas := Some 6, axes := [7]\<rparr>,
      (blank FigureCanvas)
        \<lparr>registry := [(0, ''pick_event'', DragOnPick 1),
                      (1, ''button_release_event'', DragOnRelease 1)],
         next_cid := 2\<rparr>,
      (blank Axes)\<lparr>get_figure := Some (Some 5), lines := [8]\<rparr>,
      (blank Line2D)
        \<lparr>get_axes := Some (Some 7), get_figure := Some (Some 5), xydata := scene_xydata,
         label := ''sq2''\<rparr>,
      (blank Annotation)
        \<lparr>get_axes := Some (Some 7), get_figure := Some (Some 5), xy := (1, 1),
         position := (20, 20), bbox_contains := (\<lambda>p. True)\<rparr>]"

definition twin_scene :: world where
  \<comment> \<open>two figures, each with one annotation and its instance; nothing is picked\<close>
  "twin_scene =
     \<lparr>objs = scene_objs @ second_figure, pickers = [],
      draggables = [idle_drag 4, idle_drag 9], drag_lock = False, counter = 2, stdout = [],
      last_event = None, float_add = (+), float_mul = (*)\<rparr>"

definition twin_after :: "draggable list \<Rightarrow> bool \<Rightarrow> world" where
  "twin_after ds l = twin_scene\<lparr>draggables := ds, drag_lock := l\<rparr>"

definition line_pick :: "pyval \<Rightarrow> pick_event" where
  \<comment> \<open>a left click near the line (3), with three indices in range\<close>
  "line_pick k =
     \<lparr>mouseevent = \<lparr>button_e = PyInt 1, key_e = k, pos_e = (0, 0)\<rparr>, artist = 3,
      ind = [1, 2, 3]\<rparr>"


definition stale_scene :: world where
  \<comment> \<open>the scene after a right-click pick (the instance holds the drag and the lock), with
      the annotation artist taken out of its axes since\<close>
  "stale_scene =
     set_obj 4 ((scene_objs ! 4)\<lparr>in_figure := False\<rparr>) (scene (PyInt 3) True True)"




section \<open>Properties\<close>

declare move_left.simps [simp del] move_right.simps [simp del] str_nat.simps [simp del]

lemma bind_err_Inr [simp]: "bind_err (Inr x) f = f x"
  by (simp add: bind_err_def)

lemma bind_err_Inl [simp]: "bind_err (Inl e) f = Inl e"
  by (simp add: bind_err_def)

lemma raise_in_Inr [simp]: "raise_in w (Inr x) = Inr x"
  by (simp add: raise_in_def)

lemma raise_in_Inl [simp]: "raise_in w (Inl e) = Inl (e, w)"
  by (simp add: raise_in_def)

lemma raise_in_eq_Inr [simp]: "raise_in w m = Inr x \<longleftrightarrow> m = Inr x"
  by (cases m) simp_all

lemma row_in_range: "0 \<le> i \<Longrightarrow> i < int (length xyd) \<Longrightarrow> row xyd i = Inr (xyd ! nat i)"
  by (simp add: row_def)

lemma move_left_spec:
  "0 \<le> i \<Longrightarrow> i < int (length xyd) \<Longrightarrow>
   \<exists>j. move_left xyd new_x i = Inr j \<and> 0 \<le> j \<and> j \<le> i \<and>
       (j = 0 \<or> fst (xyd ! nat (j - 1)) \<le> new_x)"
proof (induction xyd new_x i rule: move_left.induct)
  case (1 xyd new_x i)
  show ?case
  proof (cases "i > 0")
    case False
    with "1.prems" show ?thesis by (subst move_left.simps) auto
  next
    case True
    then have r: "row xyd (i - 1) = Inr (xyd ! nat (i - 1))"
      using "1.prems" by (simp add: row_in_range)
    show ?thesis
    proof (cases "fst (xyd ! nat (i - 1)) > new_x")
      case False
      with True r show ?thesis by (subst move_left.simps) auto
    next
      case gt: True
      have "\<exists>j. move_left xyd new_x (i - 1) = Inr j \<and> 0 \<le> j \<and> j \<le> i - 1 \<and>
                (j = 0 \<or> fst (xyd ! nat (j - 1)) \<le> new_x)"
        using "1.IH"[OF True gt] True "1.prems" by simp
      then obtain j where j: "move_left xyd new_x (i - 1) = Inr j" "0 \<le> j" "j \<le> i - 1"
        "j = 0 \<or> fst (xyd ! nat (j - 1)) \<le> new_x" by blast
      have "move_left xyd new_x i = Inr j"
        using True r gt j(1) by (subst move_left.simps) simp
      with j show ?thesis by auto
    qed
  qed
qed

lemma move_right_spec:
  "0 \<le> i \<Longrightarrow> i < int (length xyd) \<Longrightarrow>
   \<exists>j. move_right xyd new_x i = Inr j \<and> i \<le> j \<and> j < int (length xyd) \<and>
       (j = int (length xyd) - 1 \<or> new_x \<le> fst (xyd ! nat (j + 1))) \<and>
       (j \<noteq> i \<longrightarrow> fst (xyd ! nat j) < new_x)"
proof (induction xyd new_x i rule: move_right.induct)
  case (1 xyd new_x i)
  show ?case
  proof (cases "i < int (length xyd) - 1")
    case False
    with "1.prems" show ?thesis by (subst move_right.simps) auto
  next
    case True
    then have r: "row xyd (i + 1) = Inr (xyd ! nat (i + 1))"
      using "1.prems" by (simp add: row_in_range)
    show ?thesis
    proof (cases "fst (xyd ! nat (i + 1)) < new_x")
      case False
      with True r show ?thesis by (subst move_right.simps) auto
    next
      case lt: True
      have "\<exists>j. move_right xyd new_x (i + 1) = Inr j \<and> i + 1 \<le> j \<and> j < int (length xyd) \<and>
                (j = int (length xyd) - 1 \<or> new_x \<le> fst (xyd ! nat (j + 1))) \<and>
                (j \<noteq> i + 1 \<longrightarrow> fst (xyd ! nat j) < new_x)"
        using "1.IH"[OF True lt] True "1.prems" by simp
      then obtain j where j: "move_right xyd new_x (i + 1) = Inr j" "i + 1 \<le> j"
        "j < int (length xyd)"
        "j = int (length xyd) - 1 \<or> new_x \<le> fst (xyd ! nat (j + 1))"
        "j \<noteq> i + 1 \<longrightarrow> fst (xyd ! nat j) < new_x" by blast
      have "move_right xyd new_x i = Inr j"
        using True r lt j(1) by (subst move_right.simps) simp
      moreover have "fst (xyd ! nat j) < new_x"
        using j(5) lt by (cases "j = i + 1") auto
      ultimately show ?thesis using j by auto
    qed
  qed
qed

lemma slide_index_spec:
  assumes "0 \<le> i" "i < int (length xyd)"
  shows "\<exists>j. slide_index xyd new_x i = Inr j \<and> 0 \<le> j \<and> j < int (length xyd) \<and>
           row xyd j = Inr (xyd ! nat j)"
proof -
  from move_left_spec[OF assms, of new_x] obtain k where
    k: "move_left xyd new_x i = Inr k" "0 \<le> k" "k \<le> i" by blast
  then have "k < int (length xyd)" using assms by simp
  from move_right_spec[OF k(2) this, of new_x] obtain j where
    j: "move_right xyd new_x k = Inr j" "k \<le> j" "j < int (length xyd)" by blast
  have "slide_index xyd new_x i = Inr j" by (simp add: slide_index_def k(1) j(1))
  moreover have "0 \<le> j" using k j by simp
  ultimately show ?thesis using j(3) by (simp add: row_in_range)
qed



lemma lookup_Inr_iff: "lookup xs r = Inr x \<longleftrightarrow> r < length xs \<and> x = xs ! r"
  by (auto simp: lookup_def)

lemma lookup_update_same: "r < length xs \<Longrightarrow> lookup (xs[r := x]) r = Inr x"
  by (simp add: lookup_def)

lemma lookup_update_other: "r \<noteq> r' \<Longrightarrow> lookup (xs[r := x]) r' = lookup xs r'"
  by (simp add: lookup_def)

lemma set_obj_fields [simp]:
  "objs (set_obj r ob w) = (objs w)[r := ob]"
  "draggables (set_obj r ob w) = draggables w"
  "pickers (set_obj r ob w) = pickers w"
  "drag_lock (set_obj r ob w) = drag_lock w"
  "counter (set_obj r ob w) = counter w"
  "stdout (set_obj r ob w) = stdout w"
  "last_event (set_obj r ob w) = last_event w"
  "float_add (set_obj r ob w) = float_add w"
  "float_mul (set_obj r ob w) = float_mul w"
  by (simp_all add: set_obj_def)

lemma set_draggable_fields [simp]:
  "objs (set_draggable d dr w) = objs w"
  "draggables (set_draggable d dr w) = (draggables w)[d := dr]"
  "pickers (set_draggable d dr w) = pickers w"
  "drag_lock (set_draggable d dr w) = drag_lock w"
  "counter (set_draggable d dr w) = counter w"
  "stdout (set_draggable d dr w) = stdout w"
  "last_event (set_draggable d dr w) = last_event w"
  "float_add (set_draggable d dr w) = float_add w"
  "float_mul (set_draggable d dr w) = float_mul w"
  by (simp_all add: set_draggable_def)

lemma set_obj_twice [simp]: "set_obj r x (set_obj r y w) = set_obj r x w"
  by (simp add: set_obj_def)

lemma set_obj_same: "lookup (objs w) r = Inr ob \<Longrightarrow> set_obj r ob w = w"
  by (simp add: set_obj_def lookup_Inr_iff)

lemma set_text_result:
  "lookup (objs w) a = Inr ao \<Longrightarrow> set_text a s w = Inr (set_obj a (ao\<lparr>a_text := Some s\<rparr>) w)"
  by (simp add: set_text_def)

lemma set_text_draggables: "set_text a s w = Inr w' \<Longrightarrow> draggables w' = draggables w"
  by (auto simp: set_text_def bind_err_def split: sum.splits)

lemma update_offset_stored_index:
  assumes "lookup (draggables w) d = Inr dr" and "button dr = Some (PyInt 2)"
    and "xydata_d dr = Some xyd" and "drag_trans_pix2dat dr = Some t"
    and "drag_start_pixels dr = Some (px, py)"
    and "index dr = Some i0"
    and "slide_index xyd (fst (t (float_add w px dx, float_add w py dy))) i0 = Inr j"
    and "update_offset d dx dy w = Inr w'"
  shows "\<exists>dr'. lookup (draggables w') d = Inr dr' \<and> index dr' = Some j"
proof (cases "j = i0")
  case True
  with assms show ?thesis by (simp add: update_offset_def)
next
  case False
  have d: "d < length (draggables w)" using assms(1) by (simp add: lookup_Inr_iff)
  from False assms d show ?thesis
    by (auto simp: update_offset_def bind_err_def lookup_update_same Let_def
          dest!: set_text_draggables split: sum.splits option.splits)
qed


lemma disconnect_all_result:
  "lookup (objs w) c = Inr co \<Longrightarrow> cls co = FigureCanvas \<Longrightarrow>
   disconnect_all c ids w =
     Inr (set_obj c (co\<lparr>registry := filter (\<lambda>e. fst e \<notin> set ids) (registry co)\<rparr>) w)"
proof (induction ids arbitrary: w co)
  case Nil
  then show ?case by (simp add: set_obj_same)
next
  case (Cons cid rest)
  let ?co = "co\<lparr>registry := filter (\<lambda>e. fst e \<noteq> cid) (registry co)\<rparr>"
  have c: "c < length (objs w)" using Cons.prems(1) by (simp add: lookup_Inr_iff)
  have 1: "mpl_disconnect c cid w = Inr (set_obj c ?co w)"
    using Cons.prems by (simp add: mpl_disconnect_def)
  have 2: "lookup (objs (set_obj c ?co w)) c = Inr ?co"
    using c by (simp add: lookup_update_same)
  have 3: "cls ?co = FigureCanvas" using Cons.prems(2) by simp
  have "(\<lambda>e. fst e \<notin> set rest \<and> fst e \<noteq> cid) = (\<lambda>e. fst e \<noteq> cid \<and> fst e \<notin> set rest)"
    by auto
  then show ?case using Cons.IH[OF 2 3] 1 by simp
qed


lemma print_annotation_frame:
  assumes "print_annotation d w = Inr w'"
  shows "objs w' = objs w \<and> draggables w' = draggables w"
proof -
  obtain dr where dr: "lookup (draggables w) d = Inr dr"
    using assms by (cases "lookup (draggables w) d") (simp_all add: print_annotation_def)
  obtain lr where lr: "line dr = Some lr"
    using assms dr by (cases "line dr") (simp_all add: print_annotation_def)
  obtain lo where lo: "lookup (objs w) lr = Inr lo"
    using assms dr lr by (cases "lookup (objs w) lr") (simp_all add: print_annotation_def)
  obtain ao where ao: "lookup (objs w) (ref_artist dr) = Inr ao"
    using assms dr lr lo
    by (cases "lookup (objs w) (ref_artist dr)") (simp_all add: print_annotation_def)
  from assms dr lr lo ao obtain s where "w' = w\<lparr>stdout := s\<rparr>"
    by (simp add: print_annotation_def) blast
  then show ?thesis by simp
qed

lemma finalize_offset_unfold:
  "lookup (draggables w) d = Inr dr \<Longrightarrow> button dr = Some b \<Longrightarrow>
   finalize_offset d w =
      (if b = PyInt 2 \<and> formatter dr \<noteq> None then print_annotation d w
       else if b = PyInt 3 then remove_self d w else Inr w)"
  by (simp add: finalize_offset_def)


lemma release_caught:
  "(case release l of Inr l' \<Rightarrow> Inr (w\<lparr>drag_lock := l'\<rparr>)
     | Inl e \<Rightarrow> if e = RuntimeError then Inr w else Inl (e, w)) =
   (if l then Inr (w\<lparr>drag_lock := False\<rparr>) else Inr w)"
  by (simp add: release_def)


lemma on_release_result:
  assumes "DraggableBase_on_release d event w = Inr w1"
  shows "on_release d event w = Inr (w1\<lparr>drag_lock := False\<rparr>)"
proof (cases "drag_lock w1")
  case True
  with assms show ?thesis by (simp add: on_release_def release_def)
next
  case False
  then have "w1\<lparr>drag_lock := False\<rparr> = w1" by simp
  with False assms show ?thesis by (simp add: on_release_def release_def)
qed

lemma scene_objs_length [simp]: "length scene_objs = 5"
  by (simp add: scene_objs_def)

lemma scene_objs_world [simp]: "objs (scene b g l) = scene_objs"
  by (simp add: scene_def)

lemma scene_float [simp]:
  "float_add (scene b g l) = (+)" "float_mul (scene b g l) = (*)"
  "drag_lock (scene b g l) = l"
  by (simp_all add: scene_def)

lemma scene_lookup_any [simp]: "r < 5 \<Longrightarrow> lookup scene_objs r = Inr (scene_objs ! r)"
  by (simp add: lookup_def)

lemma scene_lookup [simp]:
  "lookup (draggables (scene b g l)) 0 = Inr (scene_drag b g)"
  by (simp add: scene_def lookup_def)

lemma scene_canvas [simp]:
  "cls (scene_objs ! Suc 0) = FigureCanvas"
  "registry (scene_objs ! Suc 0) =
     [(0, ''pick_event'', DragOnPick 0), (1, ''button_release_event'', DragOnRelease 0)]"
  "draws (scene_objs ! Suc 0) = 0"
  by (simp_all add: scene_objs_def blank_def)

lemma scene_drag_simps [simp]:
  "ref_artist (scene_drag b g) = 4" "canvas_d (scene_drag b g) = Suc 0"
  "cids (scene_drag b g) = [0, 1]" "button (scene_drag b g) = Some b"
  "formatter (scene_drag b g) = None" "got_artist (scene_drag b g) = g"
  "(scene_drag b g)\<lparr>got_artist := g'\<rparr> = scene_drag b g'"
  by (simp_all add: scene_drag_def)


lemma scene_slide: "slide_index scene_xydata (11 / 5) 1 = Inr 2"
  by (simp add: slide_index_def move_left.simps move_right.simps row_def scene_xydata_def)

lemma scene_drag_slide [simp]:
  "xydata_d (scene_drag b g) = Some scene_xydata"
  "drag_trans_pix2dat (scene_drag b g) = Some (\<lambda>p. p)"
  "drag_start_pixels (scene_drag b g) = Some (1, 1)"
  "index (scene_drag b g) = Some 1" "line (scene_drag b g) = Some 3"
  by (simp_all add: scene_drag_def)


lemma bind_err_cong [fundef_cong]:
  "m = m' \<Longrightarrow> (\<And>x. m' = Inr x \<Longrightarrow> f x = f' x) \<Longrightarrow> bind_err m f = bind_err m' f'"
  by (cases m') (simp_all add: bind_err_def)

lemma disable_callbacks_not_enabled:
  assumes "lookup (objs w) c = Inr co" and "cls co = FigureCanvas"
    and "annotations_line2d co = None"
  shows "disable_callbacks c w = Inl (AttributeError, w)"
  using assms by (simp add: disable_callbacks_def)

lemma mpl_connect_result:
  "lookup (objs w) c = Inr co \<Longrightarrow> cls co = FigureCanvas \<Longrightarrow>
   mpl_connect c s h w =
     Inr (next_cid co,
          set_obj c (co\<lparr>registry := registry co @ [(next_cid co, s, h)],
                        next_cid := Suc (next_cid co)\<rparr>) w)"
  by (simp add: mpl_connect_def)

lemma enable_callbacks_fresh:
  assumes "canvas_of_artist a w = Inr (Some c)" and "lookup (objs w) c = Inr co"
    and "cls co = FigureCanvas" and "annotations_line2d co = None"
  shows "enable_callbacks a w =
     Inr (set_obj c
            (co\<lparr>registry := registry co @
                   [(next_cid co, ''pick_event'', OnPickEvent),
                    (Suc (next_cid co), ''figure_enter_event'', OnFigureEnterEvent)],
                next_cid := Suc (Suc (next_cid co)),
                annotations_line2d := Some (CallbackIds [next_cid co, Suc (next_cid co)])\<rparr>) w)"
proof -
  have c: "c < length (objs w)" using assms(2) by (simp add: lookup_Inr_iff)
  let ?co1 = "co\<lparr>registry := registry co @ [(next_cid co, ''pick_event'', OnPickEvent)],
                 next_cid := Suc (next_cid co)\<rparr>"
  let ?w1 = "set_obj c ?co1 w"
  have 1: "mpl_connect c ''pick_event'' OnPickEvent w = Inr (next_cid co, ?w1)"
    using assms(2,3) by (rule mpl_connect_result)
  have l1: "lookup (objs ?w1) c = Inr ?co1" using c by (simp add: lookup_update_same)
  let ?co2 = "?co1\<lparr>registry := registry ?co1 @
                    [(next_cid ?co1, ''figure_enter_event'', OnFigureEnterEvent)],
                  next_cid := Suc (next_cid ?co1)\<rparr>"
  have 2: "mpl_connect c ''figure_enter_event'' OnFigureEnterEvent ?w1 =
             Inr (next_cid ?co1, set_obj c ?co2 ?w1)"
    using l1 assms(3) by (intro mpl_connect_result) simp_all
  have l2: "lookup (objs (set_obj c ?co2 ?w1)) c = Inr ?co2"
    using c by (simp add: lookup_def)
  show ?thesis
    unfolding enable_callbacks_def
    by (simp add: assms(1,2,4) 1 2 l2 del: set_obj_fields) (simp add: set_obj_def lookup_def c)
qed

lemma enable_callbacks_present:
  assumes "canvas_of_artist a w = Inr (Some c)" and "lookup (objs w) c = Inr co"
    and "annotations_line2d co \<noteq> None"
  shows "enable_callbacks a w = Inr w"
  using assms by (auto simp: enable_callbacks_def)

lemma lookup_set_obj:
  "lookup (objs w) c = Inr co \<Longrightarrow>
   lookup (objs (set_obj c co' w)) r = (if r = c then Inr co' else lookup (objs w) r)"
  by (auto simp: lookup_def)

lemma canvas_of_artist_frame:
  assumes "lookup (objs w) c = Inr co" and "cls co' = cls co"
    and "get_figure co' = get_figure co" and "canvas co' = canvas co"
  shows "canvas_of_artist a (set_obj c co' w) = canvas_of_artist a w"
proof (cases a)
  case None
  then show ?thesis by (simp add: canvas_of_artist_def)
next
  case (Some r)
  note l = lookup_set_obj[OF assms(1), of co']
  have f: "bind_err (lookup (objs (set_obj c co' w)) f) (\<lambda>fo. Inr (canvas fo)) =
           bind_err (lookup (objs w) f) (\<lambda>fo. Inr (canvas fo))" for f
    by (simp add: l assms del: set_obj_fields)
  show ?thesis
  proof (cases "r = c")
    case True
    with Some show ?thesis
      unfolding canvas_of_artist_def f
      by (simp add: l assms del: set_obj_fields)
  next
    case False
    with Some show ?thesis
      unfolding canvas_of_artist_def f
      by (simp add: l del: set_obj_fields)
  qed
qed

lemma owner_attr_of:
  assumes "\<And>r. g = Some (Some r) \<Longrightarrow> r < length (objs w)"
  shows "(case g of None \<Rightarrow> Inr None | Some x \<Rightarrow> attr_of w x) = Inr (owner_attr w g)"
proof (cases g)
  case None
  then show ?thesis by (simp add: owner_attr_def)
next
  case (Some x)
  show ?thesis
  proof (cases x)
    case None
    with Some show ?thesis by (simp add: owner_attr_def attr_of_def)
  next
    case (Some r)
    with \<open>g = Some x\<close> assms have "r < length (objs w)" by simp
    with Some \<open>g = Some x\<close> show ?thesis by (simp add: owner_attr_def attr_of_def lookup_def)
  qed
qed


lemma scene_obj_fields [simp]:
  "cls (scene_objs ! 0) = Figure" "canvas (scene_objs ! 0) = Some 1"
  "annotations_line2d (scene_objs ! 0) = None"
  "annotations_line2d (scene_objs ! Suc 0) = None"
  "next_cid (scene_objs ! Suc 0) = 2"
  "cls (scene_objs ! 2) = Axes" "get_axes (scene_objs ! 2) = Some None" "get_figure (scene_objs ! 2) = Some (Some 0)"
  "annotations_line2d (scene_objs ! 2) = None"
  "cls (scene_objs ! 3) = Line2D" "get_axes (scene_objs ! 3) = Some (Some 2)"
  "get_figure (scene_objs ! 3) = Some (Some 0)"
  "annotations_line2d (scene_objs ! 3) = None"
  "xydata (scene_objs ! 3) = scene_xydata"
  by (simp_all add: scene_objs_def blank_def)


lemma scene_canvas_of_line:
  "canvas_of_artist (Some 3) (scene b g l) = Inr (Some 1)"
  by (simp add: canvas_of_artist_def)


lemma controlled_scene_objs:
  "objs controlled_scene = scene_objs[2 := (scene_objs ! 2)\<lparr>annotations_line2d := Some (Instance 0)\<rparr>]"
  by (simp add: controlled_scene_def)

lemma world_lock_same: "drag_lock w = l \<Longrightarrow> w\<lparr>drag_lock := l\<rparr> = w"
  by simp

lemma artist_picker_cases:
  assumes "artist_picker d a ev w = Inr (res, w')"
  shows "(res = (False, None) \<and> w' = w) \<or>
         (\<exists>dr. lookup (draggables w) d = Inr dr \<and> \<not> drag_lock w \<and> fst res \<and>
               w' = set_draggable d (dr\<lparr>button := Some (button_e ev)\<rparr>) (w\<lparr>drag_lock := True\<rparr>))"
proof -
  obtain dr where dr: "lookup (draggables w) d = Inr dr"
    using assms by (cases "lookup (draggables w) d") (simp_all add: artist_picker_def)
  show ?thesis
  proof (cases "button_e ev \<in> {PyInt 1, PyInt 3} \<or>
          (button_e ev = PyInt 2 \<and> line dr \<noteq> None \<and> index dr \<noteq> None)")
    case False
    with assms dr show ?thesis by (auto simp: artist_picker_def)
  next
    case True
    then obtain ao where ao: "lookup (objs w) (ref_artist dr) = Inr ao"
      using assms dr
      by (cases "lookup (objs w) (ref_artist dr)") (simp_all add: artist_picker_def)
    show ?thesis
    proof (cases "bbox_contains ao (pos_e ev)")
      case False
      with assms dr ao True show ?thesis by (simp add: artist_picker_def)
    next
      case hit: True
      show ?thesis
      proof (cases "drag_lock w")
        case locked: True
        then have e: "w\<lparr>drag_lock := True\<rparr> = w" by simp
        from assms dr ao True hit locked have "res = (False, None) \<and> w' = w\<lparr>drag_lock := True\<rparr>"
          by (auto simp: artist_picker_def acquire_def)
        with e show ?thesis by simp
      next
        case free: False
        with assms dr ao True hit show ?thesis
          by (auto simp: artist_picker_def acquire_def)
      qed
    qed
  qed
qed

lemma artist_picker_locked:
  assumes "drag_lock w" and "lookup (draggables w) d = Inr dr"
    and "lookup (objs w) (ref_artist dr) = Inr ao"
  shows "artist_picker d a ev w = Inr ((False, None), w)"
proof -
  have "w\<lparr>drag_lock := True\<rparr> = w" using assms(1) by simp
  then show ?thesis using assms by (simp add: artist_picker_def acquire_def)
qed

lemma dragging_set:
  "set (dragging w) = {i. i < length (draggables w) \<and> got_artist (draggables w ! i)}"
  by (auto simp: dragging_def)

lemma dragging_set_draggable:
  assumes "lookup (draggables w) d = Inr dr"
  shows "set (dragging (set_draggable d dr' w)) =
           (if got_artist dr' then insert d (set (dragging w)) else set (dragging w) - {d})"
proof -
  have d: "d < length (draggables w)" using assms by (simp add: lookup_Inr_iff)
  then show ?thesis by (auto simp: dragging_set nth_list_update)
qed

lemma dragging_same_flag:
  assumes "lookup (draggables w) d = Inr dr" and "got_artist dr' = got_artist dr"
  shows "set (dragging (set_draggable d dr' w)) = set (dragging w)"
proof -
  have d: "d < length (draggables w)" "draggables w ! d = dr"
    using assms(1) by (simp_all add: lookup_Inr_iff)
  then show ?thesis using assms(2) by (auto simp: dragging_set nth_list_update)
qed

lemma dragging_cong:
  "draggables w' = draggables w \<Longrightarrow> dragging w' = dragging w"
  by (simp add: dragging_def)

lemma save_offset_cases:
  assumes "save_offset d w = Inr w'"
  shows "w' = w \<or> (\<exists>dr dr'. lookup (draggables w) d = Inr dr \<and> got_artist dr' = got_artist dr \<and>
                      w' = set_draggable d dr' w)"
proof -
  obtain dr where dr: "lookup (draggables w) d = Inr dr"
    using assms by (cases "lookup (draggables w) d") (simp_all add: save_offset_def)
  obtain b where b: "button dr = Some b"
    using assms dr by (cases "button dr") (simp_all add: save_offset_def)
  have upd: "\<exists>dr dr'. lookup (draggables w) d = Inr dr \<and> got_artist dr' = got_artist dr \<and>
                      w' = set_draggable d dr' w"
    if "w' = set_draggable d dr' w" "got_artist dr' = got_artist dr" for dr'
    using that dr by blast
  show ?thesis
  proof (cases "b = PyInt 1")
    case True
    then obtain ao where ao: "lookup (objs w) (ref_artist dr) = Inr ao"
      using assms dr b
      by (cases "lookup (objs w) (ref_artist dr)") (simp_all add: save_offset_def)
    have "w' = set_draggable d
                 (dr\<lparr>drag_start_text_points := Some (position ao),
                     drag_trans_mat := Some (inverted_matrix ao)\<rparr>) w"
      using True assms dr b ao by (simp add: save_offset_def)
    from upd[OF this] show ?thesis by simp
  next
    case n1: False
    show ?thesis
    proof (cases "b = PyInt 2")
      case False
      with n1 assms dr b show ?thesis by (simp add: save_offset_def)
    next
      case True
      obtain lr where lr: "line dr = Some lr"
        using True assms dr b by (cases "line dr") (simp_all add: save_offset_def)
      obtain lo where lo: "lookup (objs w) lr = Inr lo"
        using True assms dr b lr by (cases "lookup (objs w) lr") (simp_all add: save_offset_def)
      obtain ao where ao: "lookup (objs w) (ref_artist dr) = Inr ao"
        using True assms dr b lr lo
        by (cases "lookup (objs w) (ref_artist dr)") (simp_all add: save_offset_def)
      obtain ax where ax: "get_axes ao = Some (Some ax)"
        using True assms dr b lr lo ao
        by (cases "get_axes ao") (auto simp: save_offset_def split: option.splits)
      obtain axo where axo: "lookup (objs w) ax = Inr axo"
        using True assms dr b lr lo ao ax
        by (cases "lookup (objs w) ax") (simp_all add: save_offset_def)
      have "w' = set_draggable d
                   (dr\<lparr>xydata_d := Some (xydata lo),
                       drag_start_pixels := Some (transData axo (xy ao)),
                       drag_trans_pix2dat := Some (transData_inverted axo)\<rparr>) w"
        using True assms dr b lr lo ao ax axo by (simp add: save_offset_def)
      from upd[OF this] show ?thesis by simp
    qed
  qed
qed

lemma save_offset_frame:
  assumes "save_offset d w = Inr w'"
  shows "set (dragging w') = set (dragging w) \<and> drag_lock w' = drag_lock w"
  using save_offset_cases[OF assms] by (auto simp: dragging_same_flag)

lemma flags_set_draggable:
  "map got_artist (draggables (set_draggable d dr' w)) =
     (map got_artist (draggables w))[d := got_artist dr']"
  by (simp add: map_update)

lemma flags_same:
  assumes "lookup (draggables w) d = Inr dr" and "got_artist dr' = got_artist dr"
  shows "map got_artist (draggables (set_draggable d dr' w)) = map got_artist (draggables w)"
proof -
  have "d < length (draggables w)" "draggables w ! d = dr"
    using assms(1) by (simp_all add: lookup_Inr_iff)
  then have "(map got_artist (draggables w))[d := got_artist dr] = map got_artist (draggables w)"
    by (simp add: list_update_same_conv)
  with assms(2) show ?thesis by (simp add: map_update)
qed

lemma save_offset_flags:
  assumes "save_offset d w = Inr w'"
  shows "map got_artist (draggables w') = map got_artist (draggables w) \<and>
         drag_lock w' = drag_lock w"
  using save_offset_cases[OF assms] flags_same by auto

lemma pick_cases:
  assumes "pick d ev w = Inr w'"
  shows "w' = w \<or>
         (\<not> drag_lock w \<and> drag_lock w' \<and> d < length (draggables w) \<and>
          map got_artist (draggables w') = (map got_artist (draggables w))[d := True])"
proof -
  obtain dr where dr: "lookup (draggables w) d = Inr dr"
    using assms by (cases "lookup (draggables w) d") (simp_all add: pick_def)
  obtain res w1 where p: "artist_picker d (ref_artist dr) ev w = Inr (res, w1)"
    using assms dr
    by (cases "artist_picker d (ref_artist dr) ev w") (auto simp: pick_def)
  have w': "(if fst res then DraggableBase_on_pick d (ref_artist dr) w1 else Inr w1) = Inr w'"
    using assms dr p by (simp add: pick_def)
  from artist_picker_cases[OF p] show ?thesis
  proof
    assume "res = (False, None) \<and> w1 = w"
    with w' show ?thesis by simp
  next
    assume "\<exists>dr. lookup (draggables w) d = Inr dr \<and> \<not> drag_lock w \<and> fst res \<and>
               w1 = set_draggable d (dr\<lparr>button := Some (button_e ev)\<rparr>) (w\<lparr>drag_lock := True\<rparr>)"
    with dr have free: "\<not> drag_lock w" and hit: "fst res"
      and w1: "w1 = set_draggable d (dr\<lparr>button := Some (button_e ev)\<rparr>) (w\<lparr>drag_lock := True\<rparr>)"
      by auto
    have d: "d < length (draggables w)" using dr by (simp add: lookup_Inr_iff)
    let ?dr1 = "dr\<lparr>button := Some (button_e ev)\<rparr>"
    have l1: "lookup (draggables w1) d = Inr ?dr1"
      using d by (simp add: w1 lookup_def)
    let ?w2 = "set_draggable d (?dr1\<lparr>got_artist := True\<rparr>) w1"
    have s: "save_offset d ?w2 = Inr w'"
      using w' hit l1 by (simp add: DraggableBase_on_pick_def)
    have f2: "map got_artist (draggables ?w2) = (map got_artist (draggables w))[d := True]"
      by (simp add: w1 map_update)
    have "drag_lock ?w2" by (simp add: w1)
    with save_offset_flags[OF s] f2 free d show ?thesis by simp
  qed
qed

lemma mpl_disconnect_frame:
  "mpl_disconnect c cid w = Inr w' \<Longrightarrow>
   draggables w' = draggables w \<and> drag_lock w' = drag_lock w"
  by (cases "lookup (objs w) c") (auto simp: mpl_disconnect_def split: if_splits)

lemma disconnect_all_frame:
  "disconnect_all c ids w = Inr w' \<Longrightarrow>
   draggables w' = draggables w \<and> drag_lock w' = drag_lock w"
proof (induction ids arbitrary: w)
  case Nil
  then show ?case by simp
next
  case (Cons cid rest)
  then obtain w1 where 1: "mpl_disconnect c cid w = Inr w1" and 2: "disconnect_all c rest w1 = Inr w'"
    by (cases "mpl_disconnect c cid w") simp_all
  from mpl_disconnect_frame[OF 1] Cons.IH[OF 2] show ?case by simp
qed

lemma canvas_draw_frame:
  "canvas_draw c w = Inr w' \<Longrightarrow> draggables w' = draggables w \<and> drag_lock w' = drag_lock w"
  by (cases "lookup (objs w) c") (auto simp: canvas_draw_def)

lemma artist_remove_frame:
  "artist_remove a w = Inr w' \<Longrightarrow> draggables w' = draggables w \<and> drag_lock w' = drag_lock w"
  by (cases "lookup (objs w) a") (auto simp: artist_remove_def split: if_splits)

lemma remove_self_flags:
  assumes "remove_self d w = Inr w'"
  shows "map got_artist (draggables w') = (map got_artist (draggables w))[d := False] \<and>
         drag_lock w' = drag_lock w"
proof -
  obtain dr where dr: "lookup (draggables w) d = Inr dr"
    using assms by (cases "lookup (draggables w) d") (simp_all add: remove_self_def)
  obtain w1 where w1: "disconnect_all (canvas_d dr) (cids dr) w = Inr w1"
    using assms dr
    by (cases "disconnect_all (canvas_d dr) (cids dr) w") (simp_all add: remove_self_def)
  obtain w2 where w2: "artist_remove (ref_artist dr) w1 = Inr w2"
    using assms dr w1
    by (cases "artist_remove (ref_artist dr) w1") (simp_all add: remove_self_def)
  have c: "canvas_draw (canvas_d dr) (set_draggable d (dr\<lparr>got_artist := False\<rparr>) w2) = Inr w'"
    using assms dr w1 w2 by (simp add: remove_self_def)
  from canvas_draw_frame[OF c] disconnect_all_frame[OF w1] artist_remove_frame[OF w2]
  show ?thesis by (simp add: map_update)
qed

lemma finalize_offset_flags:
  assumes "finalize_offset d w = Inr w'"
  shows "(map got_artist (draggables w') = map got_artist (draggables w) \<or>
          map got_artist (draggables w') = (map got_artist (draggables w))[d := False]) \<and>
         drag_lock w' = drag_lock w"
proof -
  obtain dr where dr: "lookup (draggables w) d = Inr dr"
    using assms by (cases "lookup (draggables w) d") (simp_all add: finalize_offset_def)
  obtain b where b: "button dr = Some b"
    using assms dr by (cases "button dr") (simp_all add: finalize_offset_def)
  note f = finalize_offset_unfold[OF dr b]
  show ?thesis
  proof (cases "b = PyInt 2 \<and> formatter dr \<noteq> None")
    case True
    with assms f have p: "print_annotation d w = Inr w'" by simp
    from p obtain s where "w' = w\<lparr>stdout := s\<rparr>"
      using print_annotation_frame[OF p] 
      by (auto simp: print_annotation_def bind_err_def split: sum.splits option.splits)
    then show ?thesis by simp
  next
    case n2: False
    show ?thesis
    proof (cases "b = PyInt 3")
      case True
      with assms f n2 have "remove_self d w = Inr w'" by auto
      from remove_self_flags[OF this] show ?thesis by simp
    next
      case False
      with assms f n2 have "w' = w" by auto
      then show ?thesis by simp
    qed
  qed
qed

lemma DraggableBase_on_release_flags:
  assumes "DraggableBase_on_release d ev w = Inr w1"
  shows "map got_artist (draggables w1) = (map got_artist (draggables w))[d := False]"
proof -
  obtain dr where dr: "lookup (draggables w) d = Inr dr"
    using assms by (cases "lookup (draggables w) d") (simp_all add: DraggableBase_on_release_def)
  then have d: "d < length (draggables w)" "draggables w ! d = dr"
    by (simp_all add: lookup_Inr_iff)
  show ?thesis
  proof (cases "got_artist dr")
    case False
    with assms dr have "w1 = w" by (simp add: DraggableBase_on_release_def)
    moreover have "(map got_artist (draggables w))[d := False] = map got_artist (draggables w)"
      using d False by (simp add: list_update_same_conv)
    ultimately show ?thesis by simp
  next
    case True
    then obtain wf where wf: "finalize_offset d w = Inr wf"
      using assms dr
      by (cases "finalize_offset d w") (simp_all add: DraggableBase_on_release_def)
    obtain dr1 where dr1: "lookup (draggables wf) d = Inr dr1"
      using assms dr True wf
      by (cases "lookup (draggables wf) d") (simp_all add: DraggableBase_on_release_def)
    have "w1 = set_draggable d (dr1\<lparr>got_artist := False\<rparr>) wf"
      using assms dr True wf dr1 by (simp add: DraggableBase_on_release_def)
    then have "map got_artist (draggables w1) = (map got_artist (draggables wf))[d := False]"
      by (simp add: map_update)
    with finalize_offset_flags[OF wf] show ?thesis by auto
  qed
qed

lemma on_release_flags:
  assumes "on_release d ev w = Inr w'"
  shows "\<not> drag_lock w' \<and>
         map got_artist (draggables w') = (map got_artist (draggables w))[d := False]"
proof -
  obtain w1 where w1: "DraggableBase_on_release d ev w = Inr w1"
    using assms by (cases "DraggableBase_on_release d ev w") (simp_all add: on_release_def)
  from on_release_result[OF w1] assms have "w' = w1\<lparr>drag_lock := False\<rparr>" by simp
  with DraggableBase_on_release_flags[OF w1] show ?thesis by simp
qed

lemma release_each_flags:
  "release_each ds ev w = Inr w' \<Longrightarrow>
   length (draggables w') = length (draggables w) \<and>
   (\<forall>i<length (draggables w).
      got_artist (draggables w' ! i) \<longrightarrow> got_artist (draggables w ! i) \<and> i \<notin> set ds)"
proof (induction ds arbitrary: w)
  case Nil
  then show ?case by simp
next
  case (Cons d rest)
  then obtain w1 where 1: "on_release d ev w = Inr w1" and 2: "release_each rest ev w1 = Inr w'"
    by (cases "on_release d ev w") simp_all
  from on_release_flags[OF 1]
  have f: "map got_artist (draggables w1) = (map got_artist (draggables w))[d := False]" by simp
  then have len: "length (draggables w1) = length (draggables w)"
    by (metis length_list_update length_map)
  have g: "got_artist (draggables w1 ! i) = (got_artist (draggables w ! i) \<and> i \<noteq> d)"
    if "i < length (draggables w)" for i
  proof -
    have "got_artist (draggables w1 ! i) = map got_artist (draggables w1) ! i"
      using that len by simp
    also have "\<dots> = ((map got_artist (draggables w))[d := False]) ! i" by (simp add: f)
    also have "\<dots> = (got_artist (draggables w ! i) \<and> i \<noteq> d)"
      using that by (cases "i = d") simp_all
    finally show ?thesis .
  qed
  from Cons.IH[OF 2] len g show ?case by auto
qed

lemma dragging_Nil_iff:
  "dragging w = [] \<longleftrightarrow> (\<forall>i<length (draggables w). \<not> got_artist (draggables w ! i))"
  by (auto simp: dragging_def filter_empty_conv)

lemma release_all_clears:
  assumes "release_all ev w = Inr w'"
  shows "dragging w' = []"
  using release_each_flags[OF assms[unfolded release_all_def]]
  by (auto simp: dragging_Nil_iff)

lemma dragging_at_most_one:
  assumes "set (dragging w) \<subseteq> {d}"
  shows "length (dragging w) \<le> 1"
proof -
  have "distinct (dragging w)" by (simp add: dragging_def)
  then have "length (dragging w) = card (set (dragging w))" by (simp add: distinct_card)
  also have "\<dots> \<le> card {d}" using assms by (intro card_mono) simp_all
  finally show ?thesis by simp
qed

lemma pick_keeps_one:
  assumes "pick d ev w = Inr w'"
    and "length (dragging w) \<le> 1 \<and> (dragging w \<noteq> [] \<longrightarrow> drag_lock w)"
  shows "length (dragging w') \<le> 1 \<and> (dragging w' \<noteq> [] \<longrightarrow> drag_lock w')"
  using pick_cases[OF assms(1)]
proof
  assume "w' = w"
  with assms(2) show ?thesis by simp
next
  assume h: "\<not> drag_lock w \<and> drag_lock w' \<and> d < length (draggables w) \<and>
          map got_artist (draggables w') = (map got_artist (draggables w))[d := True]"
  with assms(2) have none: "\<forall>i<length (draggables w). \<not> got_artist (draggables w ! i)"
    by (auto simp: dragging_Nil_iff)
  from h have len: "length (draggables w') = length (draggables w)"
    by (metis length_list_update length_map)
  have "i = d" if "i < length (draggables w')" "got_artist (draggables w' ! i)" for i
  proof (rule ccontr)
    assume "i \<noteq> d"
    have "got_artist (draggables w' ! i) = map got_artist (draggables w') ! i"
      using that(1) by simp
    also have "\<dots> = map got_artist (draggables w) ! i"
      using h \<open>i \<noteq> d\<close> by simp
    also have "\<dots> = got_artist (draggables w ! i)" using that(1) len by simp
    finally show False using that none len by simp
  qed
  then have "set (dragging w') \<subseteq> {d}" by (auto simp: dragging_set)
  from dragging_at_most_one[OF this] h show ?thesis by simp
qed

lemma step_keeps_one:
  assumes "step e w = Inr w'" and "broadcast e"
    and "length (dragging w) \<le> 1 \<and> (dragging w \<noteq> [] \<longrightarrow> drag_lock w)"
  shows "length (dragging w') \<le> 1 \<and> (dragging w' \<noteq> [] \<longrightarrow> drag_lock w')"
proof (cases e)
  case (Pick d ev)
  with assms(1) have "pick d ev w = Inr w'" by simp
  from pick_keeps_one[OF this assms(3)] show ?thesis .
next
  case (Release d ev)
  with assms(2) show ?thesis by simp
next
  case (ReleaseAll ev)
  with assms(1) have "release_all ev w = Inr w'" by simp
  from release_all_clears[OF this] show ?thesis by simp
qed

lemma run_keeps_one:
  "run es w = Inr w' \<Longrightarrow> list_all broadcast es \<Longrightarrow>
   length (dragging w) \<le> 1 \<and> (dragging w \<noteq> [] \<longrightarrow> drag_lock w) \<Longrightarrow>
   length (dragging w') \<le> 1 \<and> (dragging w' \<noteq> [] \<longrightarrow> drag_lock w')"
proof (induction es arbitrary: w)
  case Nil
  then show ?case by simp
next
  case (Cons e es)
  from Cons.prems(1) obtain w1 where 1: "step e w = Inr w1" and 2: "run es w1 = Inr w'"
    by (cases "step e w") simp_all
  from Cons.prems(2) have b: "broadcast e" "list_all broadcast es" by simp_all
  from Cons.IH[OF 2 b(2) step_keeps_one[OF 1 b(1) Cons.prems(3)]] show ?case .
qed


lemma pick_left_hit:
  assumes "lookup (draggables w) d = Inr dr" and "lookup (objs w) (ref_artist dr) = Inr ao"
    and "bbox_contains ao (pos_e ev)" and "button_e ev = PyInt 1" and "\<not> drag_lock w"
  shows "pick d ev w =
     Inr (set_draggable d
            (dr\<lparr>button := Some (PyInt 1), got_artist := True,
                drag_start_text_points := Some (position ao),
                drag_trans_mat := Some (inverted_matrix ao)\<rparr>)
            (w\<lparr>drag_lock := True\<rparr>))"
proof -
  have d: "d < length (draggables w)" using assms(1) by (simp add: lookup_Inr_iff)
  let ?w1 = "set_draggable d (dr\<lparr>button := Some (PyInt 1)\<rparr>) (w\<lparr>drag_lock := True\<rparr>)"
  have p: "artist_picker d (ref_artist dr) ev w = Inr ((True, Some ()), ?w1)"
    using assms by (simp add: artist_picker_def acquire_def)
  have l: "lookup (draggables ?w1) d = Inr (dr\<lparr>button := Some (PyInt 1)\<rparr>)"
    using d by (simp add: lookup_def)
  let ?w2 = "set_draggable d (dr\<lparr>button := Some (PyInt 1), got_artist := True\<rparr>) ?w1"
  have l2: "lookup (draggables ?w2) d = Inr (dr\<lparr>button := Some (PyInt 1), got_artist := True\<rparr>)"
    using d by (simp add: lookup_def)
  have o: "lookup (objs ?w2) (ref_artist dr) = Inr ao" using assms(2) by simp
  have s: "save_offset d ?w2 =
     Inr (set_draggable d
            (dr\<lparr>button := Some (PyInt 1), got_artist := True,
                drag_start_text_points := Some (position ao),
                drag_trans_mat := Some (inverted_matrix ao)\<rparr>) ?w2)"
    unfolding save_offset_def by (simp add: l2 o del: set_draggable_fields)
  have "pick d ev w = save_offset d ?w2"
    by (simp add: pick_def assms(1) p DraggableBase_on_pick_def l del: set_draggable_fields)
  with s show ?thesis by (simp add: set_draggable_def)
qed

lemma pick_locked:
  assumes "drag_lock w" and "lookup (draggables w) d = Inr dr"
    and "lookup (objs w) (ref_artist dr) = Inr ao"
  shows "pick d ev w = Inr w"
  using artist_picker_locked[OF assms, of "ref_artist dr" ev] assms(2) by (simp add: pick_def)

lemma on_release_idle:
  assumes "lookup (draggables w) d = Inr dr" and "\<not> got_artist dr"
  shows "on_release d ev w = Inr (w\<lparr>drag_lock := False\<rparr>)"
proof -
  have "DraggableBase_on_release d ev w = Inr w"
    using assms by (simp add: DraggableBase_on_release_def)
  then show ?thesis by (rule on_release_result)
qed

lemma on_release_left:
  assumes "lookup (draggables w) d = Inr dr" and "got_artist dr"
    and "button dr = Some (PyInt 1)"
  shows "on_release d ev w =
           Inr ((set_draggable d (dr\<lparr>got_artist := False\<rparr>) w)\<lparr>drag_lock := False\<rparr>)"
proof -
  have "finalize_offset d w = Inr w"
    using finalize_offset_unfold[OF assms(1,3)] by simp
  then have "DraggableBase_on_release d ev w = Inr (set_draggable d (dr\<lparr>got_artist := False\<rparr>) w)"
    using assms by (simp add: DraggableBase_on_release_def)
  then show ?thesis by (rule on_release_result)
qed

lemma twin_scene_after: "twin_scene = twin_after [idle_drag 4, idle_drag 9] False"
  by (simp add: twin_after_def twin_scene_def)

lemma twin_after_fields [simp]:
  "draggables (twin_after ds l) = ds" "drag_lock (twin_after ds l) = l"
  "objs (twin_after ds l) = scene_objs @ second_figure"
  by (simp_all add: twin_after_def twin_scene_def)

lemma twin_set_draggable:
  "(set_draggable d dr (twin_after ds l))\<lparr>drag_lock := l'\<rparr> = twin_after (ds[d := dr]) l'"
  "set_draggable d dr ((twin_after ds l)\<lparr>drag_lock := l'\<rparr>) = twin_after (ds[d := dr]) l'"
  "(twin_after ds l)\<lparr>drag_lock := l'\<rparr> = twin_after ds l'"
  "set_draggable d dr (twin_after ds l) = twin_after (ds[d := dr]) l"
  by (simp_all add: twin_after_def set_draggable_def)

lemma lookup_two [simp]: "lookup [a, b] 0 = Inr a" "lookup [a, b] (Suc 0) = Inr b"
  by (simp_all add: lookup_def)

lemma twin_objs [simp]:
  "lookup (scene_objs @ second_figure) 4 = Inr (scene_objs ! 4)"
  "lookup (scene_objs @ second_figure) 9 = Inr (second_figure ! 4)"
  by (simp_all add: lookup_def nth_append second_figure_def)

lemma scene_annotation [simp]:
  "bbox_contains (scene_objs ! 4) p" "position (scene_objs ! 4) = (20, 20)"
  "inverted_matrix (scene_objs ! 4) = (1, 1)" "in_figure (scene_objs ! 4)"
  "in_figure (second_figure ! 4)"
  "bbox_contains (second_figure ! 4) p" "position (second_figure ! 4) = (20, 20)"
  "inverted_matrix (second_figure ! 4) = (1, 1)"
  by (simp_all add: scene_objs_def second_figure_def blank_def)

lemma drag_simps [simp]:
  "ref_artist (idle_drag a) = a" "\<not> got_artist (idle_drag a)"
  "ref_artist (picked_drag a) = a" "got_artist (picked_drag a)"
  "button (picked_drag a) = Some (PyInt 1)"
  "(idle_drag a)\<lparr>button := Some (PyInt 1), got_artist := True,
                 drag_start_text_points := Some (20, 20), drag_trans_mat := Some (1, 1)\<rparr> =
     picked_drag a"
  by (simp_all add: idle_drag_def picked_drag_def)

lemma click_simps [simp]: "button_e (click b) = PyInt b" "pos_e (click b) = (0, 0)"
  by (simp_all add: click_def)

lemma twin_pick0:
  "pick 0 (click 1) (twin_after [idle_drag 4, idle_drag 9] False) =
     Inr (twin_after [picked_drag 4, idle_drag 9] True)"
  using pick_left_hit[of "twin_after [idle_drag 4, idle_drag 9] False" 0 "idle_drag 4"
      "scene_objs ! 4" "click 1"]
  by (simp add: twin_set_draggable)

lemma twin_pick1:
  "pick (Suc 0) (click 1) (twin_after [d0, idle_drag 9] False) =
     Inr (twin_after [d0, picked_drag 9] True)"
  using pick_left_hit[of "twin_after [d0, idle_drag 9] False" 1 "idle_drag 9"
      "second_figure ! 4" "click 1"]
  by (simp add: twin_set_draggable)

lemma twin_pick1_locked:
  "pick (Suc 0) (click 1) (twin_after [d0, idle_drag 9] True) = Inr (twin_after [d0, idle_drag 9] True)"
  using pick_locked[of "twin_after [d0, idle_drag 9] True" 1 "idle_drag 9" "second_figure ! 4"
      "click 1"]
  by simp

lemma twin_release1:
  "on_release (Suc 0) (click 1) (twin_after [d0, idle_drag 9] l) = Inr (twin_after [d0, idle_drag 9] False)"
  using on_release_idle[of "twin_after [d0, idle_drag 9] l" 1 "idle_drag 9" "click 1"]
  by (simp add: twin_set_draggable)

lemma twin_release0:
  "on_release 0 (click 1) (twin_after [picked_drag 4, d1] l) =
     Inr (twin_after [(picked_drag 4)\<lparr>got_artist := False\<rparr>, d1] False)"
  using on_release_left[of "twin_after [picked_drag 4, d1] l" 0 "picked_drag 4" "click 1"]
  by (simp add: twin_set_draggable)

lemma twin_release_all:
  "release_all (click 1) (twin_after [picked_drag 4, idle_drag 9] True) =
     Inr (twin_after [(picked_drag 4)\<lparr>got_artist := False\<rparr>, idle_drag 9] False)"
  by (simp add: release_all_def twin_release0 twin_release1)

lemma DraggableBase_init_result:
  assumes "lookup (objs w) a = Inr ao" and "get_figure ao = Some (Some f)"
    and "lookup (objs w) f = Inr fo" and "canvas fo = Some c"
    and "lookup (objs w) c = Inr co" and "cls co = FigureCanvas" and "a \<noteq> c"
  shows "DraggableBase_init a w =
     Inr (length (draggables w),
          w\<lparr>objs := (objs w)
                 [c := co\<lparr>registry := registry co @
                          [(next_cid co, ''pick_event'', DragOnPick (length (draggables w))),
                           (Suc (next_cid co), ''button_release_event'',
                            DragOnRelease (length (draggables w)))],
                        next_cid := Suc (Suc (next_cid co))\<rparr>,
                  a := ao\<lparr>picker := Some (PickerCallable (length (draggables w)))\<rparr>],
            draggables := draggables w @ [fresh_drag a c [next_cid co, Suc (next_cid co)]]\<rparr>)"
proof -
  let ?d = "length (draggables w)"
  have c: "c < length (objs w)" using assms(5) by (simp add: lookup_Inr_iff)
  let ?co1 = "co\<lparr>registry := registry co @ [(next_cid co, ''pick_event'', DragOnPick ?d)],
                 next_cid := Suc (next_cid co)\<rparr>"
  let ?w1 = "set_obj c ?co1 w"
  have 1: "mpl_connect c ''pick_event'' (DragOnPick ?d) w = Inr (next_cid co, ?w1)"
    using assms(5,6) by (rule mpl_connect_result)
  have l1: "lookup (objs ?w1) c = Inr ?co1" using c by (simp add: lookup_def)
  let ?co2 = "co\<lparr>registry := registry co @
                    [(next_cid co, ''pick_event'', DragOnPick ?d),
                     (Suc (next_cid co), ''button_release_event'', DragOnRelease ?d)],
                  next_cid := Suc (Suc (next_cid co))\<rparr>"
  let ?w2 = "set_obj c ?co2 w"
  have 2: "mpl_connect c ''button_release_event'' (DragOnRelease ?d) ?w1 =
             Inr (Suc (next_cid co), ?w2)"
    using mpl_connect_result[OF l1, of "''button_release_event''" "DragOnRelease ?d"] assms(6)
    by simp
  have l2: "lookup (objs ?w2) a = Inr ao"
    using assms(1,7) by (auto simp: lookup_def split: if_splits)
  have "DraggableBase_init a w =
     Inr (?d, (set_obj a (ao\<lparr>picker := Some (PickerCallable ?d)\<rparr>) ?w2)
            \<lparr>draggables := draggables ?w2 @ [fresh_drag a c [next_cid co, Suc (next_cid co)]]\<rparr>)"
    unfolding DraggableBase_init_def
    by (simp add: assms(1-4) Let_def 1 2 l2 del: set_obj_fields set_obj_twice)
  then show ?thesis by (simp add: set_obj_def)
qed

lemma axes_annotate_result:
  assumes "lookup (objs w) ax = Inr axo" and "cls axo = Axes"
  shows "axes_annotate ax tx p kw w =
     Inr (length (objs w), w\<lparr>objs := objs w @ [new_annotation ax axo tx p kw]\<rparr>)"
  using assms by (simp add: axes_annotate_def)

lemma DraggableAnnotationLine2D_init_unfold:
  assumes "DraggableBase_init a w = Inr (d, w1)" and "lookup (draggables w1) d = Inr dr"
    and "counter w1 = k"
    and "(set_draggable d (dr\<lparr>line := l, index := i, formatter := fm,
             ident := (k + 1) mod 2 ^ 31\<rparr>) w1)\<lparr>counter := (k + 1) mod 2 ^ 31\<rparr> = w2"
    and "(case fm of None \<Rightarrow> Inr w2
          | Some g \<Rightarrow> bind_err (raise_in w2 (call_formatter g l i w2)) (\<lambda>s. set_text a s w2)) = Inr w3"
    and "canvas_draw (canvas_d dr) w3 = Inr w4"
  shows "DraggableAnnotationLine2D_init a l i fm blit w = Inr (d, w4)"
  unfolding DraggableAnnotationLine2D_init_def
  by (simp only: assms bind_err_Inr raise_in_Inr prod.case Let_def)

lemma DraggableAnnotationLine2D_init_result:
  assumes "lookup (objs w) a = Inr ao" and "get_figure ao = Some (Some f)"
    and "lookup (objs w) f = Inr fo" and "canvas fo = Some c"
    and "lookup (objs w) c = Inr co" and "cls co = FigureCanvas" and "a \<noteq> c"
    and "lookup (objs w) lin = Inr lo" and "lin \<noteq> a" and "lin \<noteq> c"
    and "fm = None \<and> t = a_text ao \<or> (\<exists>g s. fm = Some g \<and> g (Some lo) (Some ix) = Inr s \<and> t = Some s)"
  shows "DraggableAnnotationLine2D_init a (Some lin) (Some ix) fm blit w =
     Inr (length (draggables w),
          w\<lparr>objs := (objs w)
                 [c := co\<lparr>registry := registry co @
                          [(next_cid co, ''pick_event'', DragOnPick (length (draggables w))),
                           (Suc (next_cid co), ''button_release_event'',
                            DragOnRelease (length (draggables w)))],
                        next_cid := Suc (Suc (next_cid co)), draws := Suc (draws co)\<rparr>,
                  a := ao\<lparr>picker := Some (PickerCallable (length (draggables w))),
                          a_text := t\<rparr>],
            draggables := draggables w @
              [(fresh_drag a c [next_cid co, Suc (next_cid co)])
                 \<lparr>line := Some lin, index := Some ix, formatter := fm,
                  ident := (counter w + 1) mod 2 ^ 31\<rparr>],
            counter := (counter w + 1) mod 2 ^ 31\<rparr>)"
proof -
  let ?d = "length (draggables w)"
  let ?co2 = "co\<lparr>registry := registry co @
                    [(next_cid co, ''pick_event'', DragOnPick ?d),
                     (Suc (next_cid co), ''button_release_event'', DragOnRelease ?d)],
                  next_cid := Suc (Suc (next_cid co))\<rparr>"
  let ?ao1 = "ao\<lparr>picker := Some (PickerCallable ?d)\<rparr>"
  let ?fd = "fresh_drag a c [next_cid co, Suc (next_cid co)]"
  let ?w1 = "w\<lparr>objs := (objs w)[c := ?co2, a := ?ao1], draggables := draggables w @ [?fd]\<rparr>"
  let ?n = "(counter w + 1) mod 2 ^ 31"
  let ?dr = "?fd\<lparr>line := Some lin, index := Some ix, formatter := fm, ident := ?n\<rparr>"
  let ?w2 = "w\<lparr>objs := (objs w)[c := ?co2, a := ?ao1], draggables := draggables w @ [?dr],
              counter := ?n\<rparr>"
  have a: "a < length (objs w)" and c: "c < length (objs w)" and l: "lin < length (objs w)"
    and ao: "objs w ! a = ao" and co: "objs w ! c = co" and lo: "objs w ! lin = lo"
    using assms(1,5,8) by (simp_all add: lookup_Inr_iff)
  have base: "DraggableBase_init a w = Inr (?d, ?w1)"
    using assms(1-7) by (rule DraggableBase_init_result)
  have ld: "lookup (draggables ?w1) ?d = Inr ?fd" by (simp add: lookup_def)
  have w2: "(set_draggable ?d ?dr ?w1)\<lparr>counter := ?n\<rparr> = ?w2"
    by (simp add: set_draggable_def)
  have cd: "canvas_d ?fd = c" by (simp add: fresh_drag_def)
  let ?w3 = "w\<lparr>objs := (objs w)[c := ?co2, a := ?ao1\<lparr>a_text := t\<rparr>],
              draggables := draggables w @ [?dr], counter := ?n\<rparr>"
  have fmt: "(case fm of None \<Rightarrow> Inr ?w2
             | Some g \<Rightarrow> bind_err (raise_in ?w2 (call_formatter g (Some lin) (Some ix) ?w2))
                         (\<lambda>s. set_text a s ?w2)) = Inr ?w3"
  proof (cases fm)
    case None
    with assms(11) have "t = a_text ao" by simp
    then have "?ao1\<lparr>a_text := t\<rparr> = ?ao1" by simp
    with None show ?thesis by simp
  next
    case (Some g)
    with assms(11) obtain s where s: "g (Some lo) (Some ix) = Inr s" "t = Some s" by auto
    have "lookup (objs ?w2) lin = Inr lo"
      using l lo assms(9,10) by (simp add: lookup_def)
    then have cf: "call_formatter g (Some lin) (Some ix) ?w2 = Inr s"
      by (simp add: call_formatter_def s del: world.simps)
    have "lookup (objs ?w2) a = Inr ?ao1" using a c by (simp add: lookup_def)
    then have "set_text a s ?w2 = Inr (set_obj a (?ao1\<lparr>a_text := Some s\<rparr>) ?w2)"
      by (rule set_text_result)
    then have "set_text a s ?w2 = Inr ?w3" by (simp add: set_obj_def s)
    with Some cf show ?thesis by (simp del: world.simps)
  qed
  have "lookup (objs ?w3) c = Inr ?co2" using c assms(7) by (simp add: lookup_def)
  then have "canvas_draw c ?w3 = Inr (set_obj c (?co2\<lparr>draws := Suc (draws ?co2)\<rparr>) ?w3)"
    by (simp add: canvas_draw_def del: world.simps set_obj_fields)
  then have draw: "canvas_draw c ?w3 =
     Inr (w\<lparr>objs := (objs w)
                 [c := ?co2\<lparr>draws := Suc (draws co)\<rparr>, a := ?ao1\<lparr>a_text := t\<rparr>],
            draggables := draggables w @ [?dr], counter := ?n\<rparr>)"
    using assms(7) by (simp add: set_obj_def list_update_swap[of a c])
  have cnt: "counter ?w1 = counter w" by simp
  from DraggableAnnotationLine2D_init_unfold[OF base ld cnt w2 fmt, unfolded cd, OF draw]
  show ?thesis .
qed

lemma lookup_append_old: "lookup xs r = Inr x \<Longrightarrow> lookup (xs @ ys) r = Inr x"
  by (auto simp: lookup_def nth_append split: if_splits)

lemma lookup_append_new: "lookup (xs @ [y]) (length xs) = Inr y"
  by (simp add: lookup_def)

lemma new_annotation_fields [simp]:
  "get_figure (new_annotation ax axo tx p kw) = get_figure axo"
  "a_text (new_annotation ax axo tx p kw) = tx"
  "cls (new_annotation ax axo tx p kw) = Annotation"
  "xy (new_annotation ax axo tx p kw) = p"
  "in_figure (new_annotation ax axo tx p kw)"
  by (simp_all add: new_annotation_def blank_def)

lemma picker_annotate_result:
  assumes "lookup (pickers w) p = Inr pk" and "lookup (objs w) lin = Inr lo"
    and "get_axes lo = Some (Some ax)" and "lookup (objs w) ax = Inr axo" and "cls axo = Axes"
    and "get_figure axo = Some (Some f)" and "lookup (objs w) f = Inr fo"
    and "canvas fo = Some c" and "lookup (objs w) c = Inr co" and "cls co = FigureCanvas"
    and "lin \<noteq> c" and "row (xydata lo) i = Inr pt"
    and "tx = None \<and> formatter_p pk (Some lo) (Some i) = Inr s \<and> t = Some s \<or> tx \<noteq> None \<and> t = tx"
  shows "picker_annotate p lin i tx w =
     Inr (length (draggables w),
          w\<lparr>objs := (objs w)
                 [c := co\<lparr>registry := registry co @
                          [(next_cid co, ''pick_event'', DragOnPick (length (draggables w))),
                           (Suc (next_cid co), ''button_release_event'',
                            DragOnRelease (length (draggables w)))],
                        next_cid := Suc (Suc (next_cid co)), draws := Suc (draws co)\<rparr>] @
                 [(new_annotation ax axo tx pt (annotation_kwargs pk))
                    \<lparr>picker := Some (PickerCallable (length (draggables w))), a_text := t\<rparr>],
            draggables := draggables w @
              [(fresh_drag (length (objs w)) c [next_cid co, Suc (next_cid co)])
                 \<lparr>line := Some lin, index := Some i,
                  formatter := (case tx of None \<Rightarrow> Some (formatter_p pk) | Some x \<Rightarrow> None),
                  ident := (counter w + 1) mod 2 ^ 31\<rparr>],
            counter := (counter w + 1) mod 2 ^ 31\<rparr>)"
proof -
  let ?a = "length (objs w)"
  let ?ann = "new_annotation ax axo tx pt (annotation_kwargs pk)"
  let ?w1 = "w\<lparr>objs := objs w @ [?ann]\<rparr>"
  let ?fm = "case tx of None \<Rightarrow> Some (formatter_p pk) | Some x \<Rightarrow> None"
  have c: "c < ?a" and l: "lin < ?a" using assms(2,9) by (simp_all add: lookup_Inr_iff)
  have ann: "axes_annotate ax tx pt (annotation_kwargs pk) w = Inr (?a, ?w1)"
    using assms(4,5) by (rule axes_annotate_result)
  have fm: "?fm = None \<and> t = a_text ?ann \<or> (\<exists>g s. ?fm = Some g \<and> g (Some lo) (Some i) = Inr s \<and> t = Some s)"
    using assms(13) by (cases "tx") auto
  have init: "DraggableAnnotationLine2D_init ?a (Some lin) (Some i) ?fm (use_blit pk) ?w1 =
     Inr (length (draggables ?w1),
          ?w1\<lparr>objs := (objs ?w1)
                 [c := co\<lparr>registry := registry co @
                          [(next_cid co, ''pick_event'', DragOnPick (length (draggables ?w1))),
                           (Suc (next_cid co), ''button_release_event'',
                            DragOnRelease (length (draggables ?w1)))],
                        next_cid := Suc (Suc (next_cid co)), draws := Suc (draws co)\<rparr>,
                  ?a := ?ann\<lparr>picker := Some (PickerCallable (length (draggables ?w1))),
                          a_text := t\<rparr>],
            draggables := draggables ?w1 @
              [(fresh_drag ?a c [next_cid co, Suc (next_cid co)])
                 \<lparr>line := Some lin, index := Some i, formatter := ?fm,
                  ident := (counter ?w1 + 1) mod 2 ^ 31\<rparr>],
            counter := (counter ?w1 + 1) mod 2 ^ 31\<rparr>)"
  proof (rule DraggableAnnotationLine2D_init_result[where f = f and fo = fo and lo = lo])
    show "lookup (objs ?w1) ?a = Inr ?ann" by (simp add: lookup_append_new)
    show "get_figure ?ann = Some (Some f)" by (simp add: assms(6))
    show "lookup (objs ?w1) f = Inr fo" using assms(7) by (simp add: lookup_append_old)
    show "canvas fo = Some c" by (rule assms(8))
    show "lookup (objs ?w1) c = Inr co" using assms(9) by (simp add: lookup_append_old)
    show "cls co = FigureCanvas" by (rule assms(10))
    show "?a \<noteq> c" using c by simp
    show "lookup (objs ?w1) lin = Inr lo" using assms(2) by (simp add: lookup_append_old)
    show "lin \<noteq> ?a" using l by simp
    show "lin \<noteq> c" by (rule assms(11))
    show "?fm = None \<and> t = a_text ?ann \<or> (\<exists>g s. ?fm = Some g \<and> g (Some lo) (Some i) = Inr s \<and> t = Some s)"
      by (rule fm)
  qed
  have "picker_annotate p lin i tx w =
          DraggableAnnotationLine2D_init ?a (Some lin) (Some i) ?fm (use_blit pk) ?w1"
    unfolding picker_annotate_def
    by (simp only: assms(1,2,3,12) ann bind_err_Inr raise_in_Inr Let_def option.case prod.case)
  with init show ?thesis using c by (simp add: list_update_append)
qed

lemma onpick_no_match:
  assumes "lookup (pickers w) p = Inr pk" and "lookup (objs w) (artist event) = Inr lo"
    and "\<not> (button_e (mouseevent event) = button_p pk \<and>
            key_e (mouseevent event) = key_p pk \<and> cls lo = Line2D)"
  shows "onpick p event w = Inr w"
  using assms by (auto simp: onpick_def)

lemma onpick_match:
  assumes "lookup (pickers w) p = Inr pk" and "lookup (objs w) (artist event) = Inr lo"
    and "button_e (mouseevent event) = button_p pk"
    and "key_e (mouseevent event) = key_p pk" and "cls lo = Line2D"
    and "ind event \<noteq> []"
  shows "onpick p event w =
           bind_err (picker_annotate p (artist event) (ind event ! (length (ind event) div 2))
                       None (w\<lparr>last_event := Some event\<rparr>))
             (\<lambda>(d, w1). Inr w1)"
  using assms by (cases "ind event") (simp_all add: onpick_def)


lemma controlled_lookup:
  "lookup (objs controlled_scene) r =
      (if r = 2 then Inr ((scene_objs ! 2)\<lparr>annotations_line2d := Some (Instance 0)\<rparr>)
       else lookup scene_objs r)"
  by (simp add: controlled_scene_objs lookup_def)

lemma controlled_fields [simp]:
  "lookup (pickers controlled_scene) 0 = Inr scene_picker"
  "length (draggables controlled_scene) = 1"
  "length (objs controlled_scene) = 5"
  by (simp_all add: controlled_scene_def lookup_def scene_def)

lemma scene_picker_fields [simp]:
  "button_p scene_picker = PyInt 1" "key_p scene_picker = PyStr ''control''"
  "formatter_p scene_picker (Some ob) i = Inr (label ob)"
  by (simp_all add: scene_picker_def)

lemma line_pick_fields [simp]:
  "button_e (mouseevent (line_pick k)) = PyInt 1" "key_e (mouseevent (line_pick k)) = k"
  "artist (line_pick k) = 3" "ind (line_pick k) = [1, 2, 3]"
  by (simp_all add: line_pick_def)

lemma scene_row: "row scene_xydata 2 = Inr (2, 4)"
  by (simp add: row_def scene_xydata_def)






lemma remove_self_not_in_figure:
  assumes "lookup (draggables w) d = Inr dr"
    and "lookup (objs w) (canvas_d dr) = Inr co" and "cls co = FigureCanvas"
    and "lookup (objs w) (ref_artist dr) = Inr ao" and "ref_artist dr \<noteq> canvas_d dr"
    and "\<not> in_figure ao"
  shows "remove_self d w =
     Inl (ValueError,
          set_obj (canvas_d dr)
            (co\<lparr>registry := filter (\<lambda>e. fst e \<notin> set (cids dr)) (registry co)\<rparr>) w)"
proof -
  have c: "canvas_d dr < length (objs w)" using assms(2) by (simp add: lookup_Inr_iff)
  show ?thesis
    using assms c
    by (simp add: remove_self_def disconnect_all_result artist_remove_def
          lookup_update_other set_obj_def)
qed

lemma on_release_not_in_figure:
  assumes "lookup (draggables w) d = Inr dr" and "got_artist dr"
    and "button dr = Some (PyInt 3)"
    and "lookup (objs w) (canvas_d dr) = Inr co" and "cls co = FigureCanvas"
    and "lookup (objs w) (ref_artist dr) = Inr ao" and "ref_artist dr \<noteq> canvas_d dr"
    and "\<not> in_figure ao"
  shows "on_release d ev w =
     Inl (ValueError,
          set_obj (canvas_d dr)
            (co\<lparr>registry := filter (\<lambda>e. fst e \<notin> set (cids dr)) (registry co)\<rparr>) w)"
proof -
  have "finalize_offset d w = remove_self d w"
    using finalize_offset_unfold[OF assms(1,3)] by simp
  then have "DraggableBase_on_release d ev w = remove_self d w"
    using assms(1,2) remove_self_not_in_figure[OF assms(1,4,5,6,7,8)]
    by (simp add: DraggableBase_on_release_def)
  then show ?thesis
    using remove_self_not_in_figure[OF assms(1,4,5,6,7,8)] by (simp add: on_release_def)
qed
subsection \<open>One drag at a time\<close>

text \<open>
  Claim C1. The class-level lock is meant to make sure that only one annotation is moved
  at a time. It does so from a pick until the next release: after a left click inside
  the first annotation, that instance holds the drag and the lock, and \<^verbatim>\<open>artist_picker\<close>
  of the second instance returns \<^verbatim>\<open>(False, None)\<close>. But \<^verbatim>\<open>on_release\<close> of the second
  instance, which holds nothing, frees the lock all the same; the first instance still
  holds its drag, and a click inside the second annotation now succeeds. Evaluated on
  two figures with one annotation each: after these three events both instances hold
  the drag.
\<close>

theorem two_drags_after_single_release:
  "dragging twin_scene = [] \<and> \<not> drag_lock twin_scene \<and>
   (case run [Pick 0 (click 1)] twin_scene of
      Inl x \<Rightarrow> False
    | Inr w1 \<Rightarrow> dragging w1 = [0] \<and> drag_lock w1 \<and>
               artist_picker 1 9 (click 1) w1 = Inr ((False, None), w1)) \<and>
   (case run [Pick 0 (click 1), Release 1 (click 1)] twin_scene of
      Inl x \<Rightarrow> False
    | Inr w2 \<Rightarrow> dragging w2 = [0] \<and> \<not> drag_lock w2) \<and>
   (case run [Pick 0 (click 1), Release 1 (click 1), Pick 1 (click 1)] twin_scene of
      Inl x \<Rightarrow> False
    | Inr w3 \<Rightarrow> dragging w3 = [0, 1] \<and> map got_artist (draggables w3) = [True, True])"
proof -
  have l: "artist_picker (Suc 0) 9 (click 1) (twin_after [picked_drag 4, idle_drag 9] True) =
             Inr ((False, None), twin_after [picked_drag 4, idle_drag 9] True)"
    using artist_picker_locked[of "twin_after [picked_drag 4, idle_drag 9] True" 1
        "idle_drag 9" "second_figure ! 4" 9 "click 1"]
    by simp
  show ?thesis
    by (simp add: twin_scene_after twin_pick0 twin_release1 twin_pick1 dragging_def l)
qed


subsection \<open>Releasing the lock\<close>

text \<open>
  Claim C2. \<^verbatim>\<open>on_release\<close> is meant to be guaranteed to release the lock. It calls the
  base class's \<^verbatim>\<open>on_release\<close> first, outside the \<^verbatim>\<open>try\<close>; when that raises, the release
  of the lock is never reached. Evaluated on an instance that was picked with the right
  button and whose annotation artist has been taken out of its axes since: the release
  runs \<^verbatim>\<open>remove\<close>, the toolkit's \<^verbatim>\<open>Artist.remove()\<close> raises after the callbacks have been
  disconnected, and \<^verbatim>\<open>on_release\<close> raises with the lock still held and the instance
  still holding the drag; from then on \<^verbatim>\<open>artist_picker\<close> refuses every click.
\<close>

theorem on_release_raise_keeps_lock_held:
  "drag_lock stale_scene \<and> got_artist (draggables stale_scene ! 0) \<and>
   button (draggables stale_scene ! 0) = Some (PyInt 3) \<and>
   \<not> in_figure (objs stale_scene ! 4) \<and>
   (case on_release 0 (click 3) stale_scene of
      Inr w' \<Rightarrow> False
    | Inl (e, w') \<Rightarrow>
        e = ValueError \<and> drag_lock w' \<and> got_artist (draggables w' ! 0) \<and>
        registry (objs w' ! 1) = [] \<and> draws (objs w' ! 1) = 0 \<and>
        artist_picker 0 4 (click 1) w' = Inr ((False, None), w'))"
proof -
  let ?ao = "(scene_objs ! 4)\<lparr>in_figure := False\<rparr>"
  let ?w1 = "set_obj (Suc 0) ((scene_objs ! Suc 0)\<lparr>registry := []\<rparr>) stale_scene"
  have l: "lookup (draggables stale_scene) 0 = Inr (scene_drag (PyInt 3) True)"
    by (simp add: stale_scene_def)
  have o: "objs stale_scene = scene_objs[4 := ?ao]"
    by (simp add: stale_scene_def)
  have c: "lookup (objs stale_scene) (Suc 0) = Inr (scene_objs ! Suc 0)"
    by (simp add: o lookup_def)
  have a: "lookup (objs stale_scene) 4 = Inr ?ao"
    by (simp add: o lookup_def)
  have r: "on_release 0 (click 3) stale_scene = Inl (ValueError, ?w1)"
    using on_release_not_in_figure[OF l, of "scene_objs ! Suc 0" ?ao "click 3"] c a
    by simp
  have lk: "drag_lock ?w1" by (simp add: stale_scene_def)
  have l1: "lookup (draggables ?w1) 0 = Inr (scene_drag (PyInt 3) True)"
    by (simp add: stale_scene_def)
  have a1: "lookup (objs ?w1) 4 = Inr ?ao"
    by (simp add: o lookup_def)
  have p: "artist_picker 0 4 (click 1) ?w1 = Inr ((False, None), ?w1)"
    using artist_picker_locked[OF lk l1, of ?ao 4 "click 1"] a1 by simp
  have obs: "got_artist (draggables ?w1 ! 0)" "registry (objs ?w1 ! Suc 0) = []"
    "draws (objs ?w1 ! Suc 0) = 0"
    by (simp_all add: stale_scene_def scene_def)
  have pre: "drag_lock stale_scene" "got_artist (draggables stale_scene ! 0)"
    "button (draggables stale_scene ! 0) = Some (PyInt 3)"
    "\<not> in_figure (objs stale_scene ! 4)"
    by (simp_all add: stale_scene_def scene_def)
  from pre r lk obs p show ?thesis by simp
qed



subsection \<open>Sliding to a neighbouring data index\<close>

text \<open>
  Claim C9. For a drag update with button 2, a starting index within
  \<open>[0, len(xydata) - 1]\<close> (so the data is not empty) stays within these bounds through
  the two loops: they return an index \<open>j\<close> in range, the row access \<^verbatim>\<open>xydata[j]\<close> does
  not raise, and \<open>j\<close> is the index stored whenever \<^verbatim>\<open>update_offset\<close> returns.
\<close>

theorem update_offset_index_in_bounds:
  assumes "lookup (draggables w) d = Inr dr" and "button dr = Some (PyInt 2)"
    and "xydata_d dr = Some xyd" and "drag_trans_pix2dat dr = Some t"
    and "drag_start_pixels dr = Some (px, py)"
    and "index dr = Some i0" and "0 \<le> i0" and "i0 \<le> int (length xyd) - 1"
  shows "\<exists>j. slide_index xyd (fst (t (float_add w px dx, float_add w py dy))) i0 = Inr j \<and>
           0 \<le> j \<and> j \<le> int (length xyd) - 1 \<and> row xyd j = Inr (xyd ! nat j) \<and>
           (\<forall>w'. update_offset d dx dy w = Inr w' \<longrightarrow>
              (\<exists>dr'. lookup (draggables w') d = Inr dr' \<and> index dr' = Some j))"
proof -
  have "i0 < int (length xyd)" using assms(8) by simp
  from slide_index_spec[OF assms(7) this, of "fst (t (float_add w px dx, float_add w py dy))"] obtain j where
    j: "slide_index xyd (fst (t (float_add w px dx, float_add w py dy))) i0 = Inr j" "0 \<le> j"
       "j < int (length xyd)" "row xyd j = Inr (xyd ! nat j)" by blast
  have "\<exists>dr'. lookup (draggables w') d = Inr dr' \<and> index dr' = Some j"
    if "update_offset d dx dy w = Inr w'" for w'
    using update_offset_stored_index[OF assms(1-6) j(1) that] .
  with j show ?thesis by auto
qed

theorem update_offset_index_in_bounds_witness:
  "slide_index scene_xydata (11 / 5) 1 = Inr 2 \<and> row scene_xydata 2 = Inr (2, 4)"
proof -
  have x: "(1::real) + 6 / 5 = 11 / 5" by simp
  from update_offset_index_in_bounds[of "scene (PyInt 2) True True" 0
      "scene_drag (PyInt 2) True" scene_xydata "\<lambda>p. p" 1 1 1 "6 / 5" 0]
  obtain j where j: "slide_index scene_xydata (11 / 5) 1 = Inr j"
    and r: "row scene_xydata j = Inr (scene_xydata ! nat j)"
    by (auto simp: x scene_xydata_def[THEN arg_cong, of length])
  from j have "j = 2" by (simp add: scene_slide)
  with r have "row scene_xydata 2 = Inr (2, 4)" by (simp add: scene_xydata_def)
  with scene_slide show ?thesis by blast
qed







subsection \<open>Deleting with a right click\<close>




subsection \<open>Finding the controlling instance\<close>

text \<open>
  Claim C4. Controller lookup walks the chain artist, axes, figure in that order and the
  nearest instance wins: \<^verbatim>\<open>_find_annotations_instance\<close> returns the attribute of the
  artist itself if present, otherwise the one on its axes if present, otherwise the one
  on its figure if present, otherwise \<^verbatim>\<open>None\<close>; and \<^verbatim>\<open>_on_pick_event\<close> calls
  \<^verbatim>\<open>_onpick\<close> of exactly the instance so found.
\<close>

theorem find_annotations_instance_nearest:
  assumes "lookup (objs w) a = Inr ao"
    and "\<And>r. get_axes ao = Some (Some r) \<Longrightarrow> r < length (objs w)"
    and "\<And>r. get_figure ao = Some (Some r) \<Longrightarrow> r < length (objs w)"
  shows "find_annotations_instance w a = Inr (nearest_instance w ao) \<and>
         (\<forall>event. artist event = a \<longrightarrow>
            on_pick_event event w =
              (case nearest_instance w ao of
                 None \<Rightarrow> Inr w
               | Some (Instance p) \<Rightarrow> onpick p event w
               | Some (CallbackIds ids) \<Rightarrow> Inl (AttributeError, w)))"
proof -
  have f: "find_annotations_instance w a = Inr (nearest_instance w ao)"
    unfolding find_annotations_instance_def
    by (simp add: assms(1) owner_attr_of[OF assms(2)] owner_attr_of[OF assms(3)]
          nearest_instance_def split: option.splits)
  then show ?thesis by (simp add: on_pick_event_def)
qed


theorem find_annotations_instance_nearest_witness:
  "find_annotations_instance controlled_scene 3 = Inr (Some (Instance 0)) \<and>
   find_annotations_instance (scene (PyInt 1) False False) 3 = Inr None \<and>
   find_annotations_instance controlled_scene 2 = Inr (Some (Instance 0))"
proof -
  have l: "lookup (objs controlled_scene) r =
      (if r = 2 then Inr ((scene_objs ! 2)\<lparr>annotations_line2d := Some (Instance 0)\<rparr>)
       else lookup scene_objs r)" for r
    by (simp add: controlled_scene_objs lookup_def)

  have n: "length (objs controlled_scene) = 5" by (simp add: controlled_scene_objs)
  have a: "find_annotations_instance controlled_scene 3 = Inr (Some (Instance 0))"
    using find_annotations_instance_nearest[of controlled_scene 3 "scene_objs ! 3"]
    by (simp add: l n nearest_instance_def owner_attr_def)
  have b: "find_annotations_instance (scene (PyInt 1) False False) 3 = Inr None"
    using find_annotations_instance_nearest[of "scene (PyInt 1) False False" 3 "scene_objs ! 3"]
    by (simp add: nearest_instance_def owner_attr_def)
  have c: "find_annotations_instance controlled_scene 2 = Inr (Some (Instance 0))"
    using find_annotations_instance_nearest[of controlled_scene 2
        "(scene_objs ! 2)\<lparr>annotations_line2d := Some (Instance 0)\<rparr>"]
    by (simp add: l n nearest_instance_def owner_attr_def)
  from a b c show ?thesis by blast
qed


subsection \<open>Connecting and disconnecting the canvas callbacks\<close>

text \<open>
  Claim C8. \<^verbatim>\<open>enable_callbacks\<close> connects exactly two signals of the canvas,
  \<^verbatim>\<open>pick_event\<close> to \<^verbatim>\<open>_on_pick_event\<close> and \<^verbatim>\<open>figure_enter_event\<close> to
  \<^verbatim>\<open>_on_figure_enter_event\<close>, and stores both callback ids in the canvas's attribute.
  Read back from the state it returns: the canvas's list of connections is the old one
  followed by these two, under the two ids the canvas handed out; the attribute holds
  these two ids; no other object and nothing else of the state has changed. On a canvas
  that carries the attribute the call changes nothing, so a second call is the identity.
\<close>

theorem enable_callbacks_connects_once:
  assumes "canvas_of_artist a w = Inr (Some c)" and "lookup (objs w) c = Inr co"
    and "cls co = FigureCanvas"
  shows "\<exists>w'. enable_callbacks a w = Inr w' \<and> enable_callbacks a w' = Inr w' \<and>
           (annotations_line2d co = None \<longrightarrow>
              registry (objs w' ! c) =
                registry co @ [(next_cid co, ''pick_event'', OnPickEvent),
                               (Suc (next_cid co), ''figure_enter_event'', OnFigureEnterEvent)] \<and>
              annotations_line2d (objs w' ! c) =
                Some (CallbackIds [next_cid co, Suc (next_cid co)]) \<and>
              next_cid (objs w' ! c) = Suc (Suc (next_cid co)) \<and>
              (objs w' ! c)\<lparr>registry := registry co, next_cid := next_cid co,
                             annotations_line2d := None\<rparr> = co \<and>
              length (objs w') = length (objs w) \<and>
              (\<forall>r. r \<noteq> c \<longrightarrow> objs w' ! r = objs w ! r) \<and>
              w'\<lparr>objs := objs w\<rparr> = w) \<and>
           (annotations_line2d co \<noteq> None \<longrightarrow> w' = w)"
proof (cases "annotations_line2d co")
  case None
  let ?co = "co\<lparr>registry := registry co @
                       [(next_cid co, ''pick_event'', OnPickEvent),
                        (Suc (next_cid co), ''figure_enter_event'', OnFigureEnterEvent)],
                    next_cid := Suc (Suc (next_cid co)),
                    annotations_line2d :=
                      Some (CallbackIds [next_cid co, Suc (next_cid co)])\<rparr>"
  let ?w' = "set_obj c ?co w"
  have c: "c < length (objs w)" using assms(2) by (simp add: lookup_Inr_iff)
  have e: "enable_callbacks a w = Inr ?w'"
    using assms None by (rule enable_callbacks_fresh)
  have "canvas_of_artist a ?w' = Inr (Some c)"
    using canvas_of_artist_frame[OF assms(2), of ?co a] assms(1) by simp
  moreover have "lookup (objs ?w') c = Inr ?co"
    by (simp add: lookup_set_obj[OF assms(2)] del: set_obj_fields)
  ultimately have i: "enable_callbacks a ?w' = Inr ?w'"
    by (rule enable_callbacks_present) simp
  have o: "objs ?w' ! c = ?co" using c by simp
  have orig: "?co\<lparr>registry := registry co, next_cid := next_cid co,
                  annotations_line2d := None\<rparr> = co"
    using None by simp
  have frame: "length (objs ?w') = length (objs w)"
    "\<forall>r. r \<noteq> c \<longrightarrow> objs ?w' ! r = objs w ! r" "?w'\<lparr>objs := objs w\<rparr> = w"
    by (simp_all add: set_obj_def)
  have "registry (objs ?w' ! c) =
          registry co @ [(next_cid co, ''pick_event'', OnPickEvent),
                         (Suc (next_cid co), ''figure_enter_event'', OnFigureEnterEvent)]"
    "annotations_line2d (objs ?w' ! c) = Some (CallbackIds [next_cid co, Suc (next_cid co)])"
    "next_cid (objs ?w' ! c) = Suc (Suc (next_cid co))"
    "(objs ?w' ! c)\<lparr>registry := registry co, next_cid := next_cid co,
                      annotations_line2d := None\<rparr> = co"
    unfolding o using orig by simp_all
  with e i frame None show ?thesis by blast
next
  case (Some v)
  then have "enable_callbacks a w = Inr w"
    using enable_callbacks_present[OF assms(1,2)] by simp
  with Some show ?thesis by simp
qed

theorem enable_callbacks_connects_once_witness:
  "\<exists>w'. enable_callbacks (Some 3) (scene (PyInt 1) False False) = Inr w' \<and>
      enable_callbacks (Some 3) w' = Inr w' \<and>
      registry (objs w' ! 1) =
        [(0, ''pick_event'', DragOnPick 0), (1, ''button_release_event'', DragOnRelease 0),
         (2, ''pick_event'', OnPickEvent), (3, ''figure_enter_event'', OnFigureEnterEvent)] \<and>
      annotations_line2d (objs w' ! 1) = Some (CallbackIds [2, 3]) \<and>
      next_cid (objs w' ! 1) = 4 \<and> objs w' ! 3 = scene_objs ! 3"
proof -
  from enable_callbacks_connects_once[of "Some 3" "scene (PyInt 1) False False" 1
      "scene_objs ! 1"]
  obtain w' where e: "enable_callbacks (Some 3) (scene (PyInt 1) False False) = Inr w'"
    "enable_callbacks (Some 3) w' = Inr w'"
    and r: "registry (objs w' ! 1) =
        [(0, ''pick_event'', DragOnPick 0), (1, ''button_release_event'', DragOnRelease 0),
         (2, ''pick_event'', OnPickEvent), (3, ''figure_enter_event'', OnFigureEnterEvent)]"
      "annotations_line2d (objs w' ! 1) = Some (CallbackIds [2, 3])"
      "next_cid (objs w' ! 1) = 4"
    and f: "\<forall>r. r \<noteq> 1 \<longrightarrow> objs w' ! r = scene_objs ! r"
    by (auto simp: scene_canvas_of_line)
  from f have "objs w' ! 3 = scene_objs ! 3" by simp
  with e r show ?thesis by blast
qed


text \<open>
  Claim C10. \<^verbatim>\<open>disable_callbacks\<close> on a canvas without the attribute raises
  \<^verbatim>\<open>AttributeError\<close>: the loop over the default empty list disconnects nothing, and the
  \<^verbatim>\<open>delattr\<close> after it fails, in a state that is still the one before the call.
\<close>

theorem disable_callbacks_without_enable_raises:
  assumes "lookup (objs w) c = Inr co" and "cls co = FigureCanvas"
    and "annotations_line2d co = None"
  shows "disable_callbacks c w = Inl (AttributeError, w) \<and>
         disconnect_all c [] w = Inr w"
  using assms by (simp add: disable_callbacks_not_enabled)

theorem disable_callbacks_without_enable_raises_witness:
  "disable_callbacks 1 (scene (PyInt 1) False False) =
     Inl (AttributeError, scene (PyInt 1) False False) \<and>
   disconnect_all 1 [] (scene (PyInt 1) False False) = Inr (scene (PyInt 1) False False)"
  using disable_callbacks_without_enable_raises[of "scene (PyInt 1) False False" 1
      "scene_objs ! Suc 0"]
  by simp


subsection \<open>Creating an annotation from a pick event\<close>

text \<open>
  Claim C7. \<^verbatim>\<open>_onpick\<close> creates an annotation exactly when the event's button and key
  equal the controller's and the picked artist is a \<^verbatim>\<open>Line2D\<close>. Otherwise it returns
  with the state unchanged. On a match, for a line in an axes of a figure with a canvas,
  a non-empty index list whose middle element \<open>i = ind[len(ind) // 2]\<close> is a row of
  the line's data, and a formatter that returns, it adds one annotation artist anchored
  at \<^verbatim>\<open>xydata[i]\<close> and one draggable instance bound to the line and to \<open>i\<close>.
\<close>

theorem onpick_annotates_exactly_on_match:
  assumes "lookup (pickers w) p = Inr pk" and "lookup (objs w) (artist event) = Inr lo"
  shows "(\<not> (button_e (mouseevent event) = button_p pk \<and>
              key_e (mouseevent event) = key_p pk \<and> cls lo = Line2D) \<longrightarrow>
            onpick p event w = Inr w) \<and>
         (button_e (mouseevent event) = button_p pk \<and>
          key_e (mouseevent event) = key_p pk \<and> cls lo = Line2D \<and>
          ind event \<noteq> [] \<and> i = ind event ! (length (ind event) div 2) \<and>
          row (xydata lo) i = Inr pt \<and> formatter_p pk (Some lo) (Some i) = Inr s \<and>
          get_axes lo = Some (Some ax) \<and> lookup (objs w) ax = Inr axo \<and> cls axo = Axes \<and>
          get_figure axo = Some (Some f) \<and> lookup (objs w) f = Inr fo \<and>
          canvas fo = Some c \<and> lookup (objs w) c = Inr co \<and> cls co = FigureCanvas \<longrightarrow>
            onpick p event w =
              Inr (w\<lparr>objs := (objs w)
                     [c := co\<lparr>registry := registry co @
                          [(next_cid co, ''pick_event'', DragOnPick (length (draggables w))),
                           (Suc (next_cid co), ''button_release_event'',
                            DragOnRelease (length (draggables w)))],
                        next_cid := Suc (Suc (next_cid co)), draws := Suc (draws co)\<rparr>] @
                     [(new_annotation ax axo None pt (annotation_kwargs pk))
                        \<lparr>picker := Some (PickerCallable (length (draggables w))),
                         a_text := Some s\<rparr>],
                   draggables := draggables w @
                     [(fresh_drag (length (objs w)) c [next_cid co, Suc (next_cid co)])
                        \<lparr>line := Some (artist event), index := Some i,
                         formatter := Some (formatter_p pk),
                         ident := (counter w + 1) mod 2 ^ 31\<rparr>],
                   counter := (counter w + 1) mod 2 ^ 31,
                   last_event := Some event\<rparr>))"
proof (intro conjI impI)
  assume "\<not> (button_e (mouseevent event) = button_p pk \<and>
              key_e (mouseevent event) = key_p pk \<and> cls lo = Line2D)"
  with assms show "onpick p event w = Inr w" by (rule onpick_no_match)
next
  assume h: "button_e (mouseevent event) = button_p pk \<and>
          key_e (mouseevent event) = key_p pk \<and> cls lo = Line2D \<and>
          ind event \<noteq> [] \<and> i = ind event ! (length (ind event) div 2) \<and>
          row (xydata lo) i = Inr pt \<and> formatter_p pk (Some lo) (Some i) = Inr s \<and>
          get_axes lo = Some (Some ax) \<and> lookup (objs w) ax = Inr axo \<and> cls axo = Axes \<and>
          get_figure axo = Some (Some f) \<and> lookup (objs w) f = Inr fo \<and>
          canvas fo = Some c \<and> lookup (objs w) c = Inr co \<and> cls co = FigureCanvas"
  let ?w = "w\<lparr>last_event := Some event\<rparr>"
  have ne: "artist event \<noteq> c" using h assms(2) by auto
  have m: "onpick p event w =
           bind_err (picker_annotate p (artist event) i None ?w) (\<lambda>(d, w1). Inr w1)"
    using onpick_match[OF assms] h by simp
  have pa: "picker_annotate p (artist event) i None ?w =
     Inr (length (draggables w),
          w\<lparr>objs := (objs w)
                     [c := co\<lparr>registry := registry co @
                          [(next_cid co, ''pick_event'', DragOnPick (length (draggables w))),
                           (Suc (next_cid co), ''button_release_event'',
                            DragOnRelease (length (draggables w)))],
                        next_cid := Suc (Suc (next_cid co)), draws := Suc (draws co)\<rparr>] @
                     [(new_annotation ax axo None pt (annotation_kwargs pk))
                        \<lparr>picker := Some (PickerCallable (length (draggables w))),
                         a_text := Some s\<rparr>],
                   draggables := draggables w @
                     [(fresh_drag (length (objs w)) c [next_cid co, Suc (next_cid co)])
                        \<lparr>line := Some (artist event), index := Some i,
                         formatter := Some (formatter_p pk),
                         ident := (counter w + 1) mod 2 ^ 31\<rparr>],
                   counter := (counter w + 1) mod 2 ^ 31,
                   last_event := Some event\<rparr>)"
    using picker_annotate_result[where w = ?w and p = p and pk = pk and lin = "artist event"
        and lo = lo and ax = ax and axo = axo and f = f and fo = fo and c = c and co = co
        and i = i and pt = pt and tx = None and s = s and t = "Some s"]
      h assms ne
    by auto
  show "onpick p event w =
              Inr (w\<lparr>objs := (objs w)
                     [c := co\<lparr>registry := registry co @
                          [(next_cid co, ''pick_event'', DragOnPick (length (draggables w))),
                           (Suc (next_cid co), ''button_release_event'',
                            DragOnRelease (length (draggables w)))],
                        next_cid := Suc (Suc (next_cid co)), draws := Suc (draws co)\<rparr>] @
                     [(new_annotation ax axo None pt (annotation_kwargs pk))
                        \<lparr>picker := Some (PickerCallable (length (draggables w))),
                         a_text := Some s\<rparr>],
                   draggables := draggables w @
                     [(fresh_drag (length (objs w)) c [next_cid co, Suc (next_cid co)])
                        \<lparr>line := Some (artist event), index := Some i,
                         formatter := Some (formatter_p pk),
                         ident := (counter w + 1) mod 2 ^ 31\<rparr>],
                   counter := (counter w + 1) mod 2 ^ 31,
                   last_event := Some event\<rparr>)"
    by (simp only: m pa bind_err_Inr prod.case)
qed

theorem onpick_annotates_exactly_on_match_witness:
  "onpick 0 (line_pick PyNone) controlled_scene = Inr controlled_scene \<and>
   (\<exists>w'. onpick 0 (line_pick (PyStr ''control'')) controlled_scene = Inr w' \<and>
      length (draggables w') = 2 \<and> line (draggables w' ! 1) = Some 3 \<and>
      index (draggables w' ! 1) = Some 2 \<and> ref_artist (draggables w' ! 1) = 5 \<and>
      length (objs w') = 6 \<and> cls (objs w' ! 5) = Annotation \<and> xy (objs w' ! 5) = (2, 4))"
proof -
  have a: "onpick 0 (line_pick PyNone) controlled_scene = Inr controlled_scene"
    using onpick_annotates_exactly_on_match[where w = controlled_scene and p = 0
        and pk = scene_picker and event = "line_pick PyNone" and lo = "scene_objs ! 3"]
    by (simp add: controlled_lookup)
  have b: "\<exists>w'. onpick 0 (line_pick (PyStr ''control'')) controlled_scene = Inr w' \<and>
      length (draggables w') = 2 \<and> line (draggables w' ! 1) = Some 3 \<and>
      index (draggables w' ! 1) = Some 2 \<and> ref_artist (draggables w' ! 1) = 5 \<and>
      length (objs w') = 6 \<and> cls (objs w' ! 5) = Annotation \<and> xy (objs w' ! 5) = (2, 4)"
    using onpick_annotates_exactly_on_match[where w = controlled_scene and p = 0
        and pk = scene_picker and event = "line_pick (PyStr ''control'')"
        and lo = "scene_objs ! 3" and i = 2 and pt = "(2, 4)" and s = "label (scene_objs ! 3)"
        and ax = 2 and axo = "(scene_objs ! 2)\<lparr>annotations_line2d := Some (Instance 0)\<rparr>"
        and f = 0 and fo = "scene_objs ! 0" and c = 1 and co = "scene_objs ! 1"]
    by (simp add: controlled_lookup scene_row nth_append fresh_drag_def)
  from a b show ?thesis by blast
qed



end
